theory Spec2Isabelle
  imports Complex_Main
begin

section \<open>Numbers with a missing value\<close>

text \<open>
  The engine of \<^verbatim>\<open>geomagio/algorithm/SQDistAlgorithm.py\<close> computes on numpy floats, where
  \<^verbatim>\<open>np.nan\<close> marks a missing observation. A float is modelled as a real number or
  \<open>NaN\<close>: arithmetic is exact on numbers and \<open>NaN\<close> absorbs, every comparison with
  \<open>NaN\<close> is false. Rounding and the infinities are not modelled. The parameters
  \<open>alpha\<close>, \<open>beta\<close>, \<open>gamma\<close>, \<open>phi\<close> and \<open>zthresh\<close> are numbers, \<open>m\<close>, \<open>fc\<close> and \<open>hstep\<close>
  are natural numbers, and \<open>l0\<close>, \<open>b0\<close> are scalars.
\<close>

datatype fl = NaN | Num real

fun isnan :: "fl \<Rightarrow> bool" where
  "isnan NaN = True"
| "isnan (Num x) = False"

fun is_num :: "fl \<Rightarrow> bool" where
  "is_num NaN = False"
| "is_num (Num x) = True"

fun the_num :: "fl \<Rightarrow> real" where
  "the_num NaN = 0"
| "the_num (Num x) = x"

fun fadd :: "fl \<Rightarrow> fl \<Rightarrow> fl" where
  "fadd (Num x) (Num y) = Num (x + y)"
| "fadd _ _ = NaN"

fun fsub :: "fl \<Rightarrow> fl \<Rightarrow> fl" where
  "fsub (Num x) (Num y) = Num (x - y)"
| "fsub _ _ = NaN"

fun fmul :: "fl \<Rightarrow> fl \<Rightarrow> fl" where
  "fmul (Num x) (Num y) = Num (x * y)"
| "fmul _ _ = NaN"

text \<open>Division is only ever by \<open>m\<close>; with \<open>m = 0\<close> the dividend is \<open>NaN\<close> already.\<close>

fun fdiv :: "fl \<Rightarrow> fl \<Rightarrow> fl" where
  "fdiv (Num x) (Num y) = (if y = 0 then NaN else Num (x / y))"
| "fdiv _ _ = NaN"

fun fabs :: "fl \<Rightarrow> fl" where
  "fabs (Num x) = Num \<bar>x\<bar>"
| "fabs NaN = NaN"

fun fsqrt :: "fl \<Rightarrow> fl" where
  "fsqrt (Num x) = (if x < 0 then NaN else Num (sqrt x))"
| "fsqrt NaN = NaN"

fun fgt :: "fl \<Rightarrow> fl \<Rightarrow> bool" where
  "fgt (Num x) (Num y) = (y < x)"
| "fgt _ _ = False"


text \<open>\<^verbatim>\<open>np.nanmean\<close>, \<^verbatim>\<open>np.nanvar\<close>: over the entries that are numbers, \<open>NaN\<close> when there are none.
  \<^verbatim>\<open>np.mean\<close> lets \<open>NaN\<close> through.\<close>

definition nums :: "fl list \<Rightarrow> real list" where
  "nums xs = map the_num (filter is_num xs)"

definition nanmean :: "fl list \<Rightarrow> fl" where
  "nanmean xs = (let ys = nums xs in
     if ys = [] then NaN else Num (sum_list ys / real (length ys)))"

definition nanvar :: "fl list \<Rightarrow> fl" where
  "nanvar xs = (let ys = nums xs in
     if ys = [] then NaN
     else let mu = sum_list ys / real (length ys)
          in Num (sum_list (map (\<lambda>y. (y - mu) ^ 2) ys) / real (length ys)))"

definition mean :: "fl list \<Rightarrow> fl" where
  "mean xs = fdiv (fold (\<lambda>x acc. fadd acc x) xs (Num 0)) (Num (real (length xs)))"

text \<open>\<^verbatim>\<open>np.cumsum\<close>.\<close>

fun cumsum_from :: "fl \<Rightarrow> fl list \<Rightarrow> fl list" where
  "cumsum_from acc [] = []"
| "cumsum_from acc (x # xs) = fadd acc x # cumsum_from (fadd acc x) xs"

definition cumsum :: "fl list \<Rightarrow> fl list" where
  "cumsum xs = cumsum_from (Num 0) xs"

section \<open>Errors\<close>

text \<open>\<^verbatim>\<open>'%d' % n\<close> for a natural number.\<close>

fun show_nat :: "nat \<Rightarrow> string" where
  "show_nat n = (if n < 10 then [''0123456789'' ! n]
                 else show_nat (n div 10) @ [''0123456789'' ! (n mod 10)])"

declare show_nat.simps [simp del]

datatype error = AlgorithmException string | IndexError | ZeroDivisionError | ValueError

section \<open>The recurrence\<close>

record params =
  p_m :: nat
  p_alpha :: real
  p_beta :: real
  p_gamma :: real
  p_phi :: real
  p_zthresh :: real
  p_hstep :: nat

text \<open>Lines 154 to 162: the coefficient of the prediction interval at horizon \<open>h\<close>, and the
  sums \<open>phiHminus1\<close> and \<open>sumc2_H\<close> for the horizon \<open>hstep\<close>.\<close>

definition coeff :: "params \<Rightarrow> real \<Rightarrow> nat \<Rightarrow> real" where
  "coeff P phisum h =
     p_alpha P * (1 + phisum * p_beta P) + p_gamma P * (if h mod p_m P = 0 then 1 else 0)"

definition baseline_step :: "params \<Rightarrow> nat \<Rightarrow> real \<times> real \<Rightarrow> real \<times> real" where
  "baseline_step P h acc =
     (let ph = fst acc + p_phi P ^ (h - 1)
      in (ph, snd acc + (coeff P ph h) ^ 2))"

definition baseline :: "params \<Rightarrow> real \<times> real" where
  "baseline P = fold (baseline_step P) [1..<p_hstep P] (0, 1)"

definition phiHminus1 :: "params \<Rightarrow> real" where
  "phiHminus1 P = fst (baseline P)"

definition sumc2_H :: "params \<Rightarrow> real" where
  "sumc2_H P = snd (baseline P)"

text \<open>The variables the loop of lines 172 to 233 updates. \<open>sv_sigma2\<close> is the local
  \<open>sigma2\<close>, unbound before the first iteration, which assigns it since \<open>jstep = hstep\<close> there.\<close>

record state =
  sv_l :: fl
  sv_b :: fl
  sv_s :: "fl list"
  sv_r :: "fl list"
  sv_sigma :: "fl list"
  sv_yhat :: "fl list"
  sv_sigma2 :: fl
  sv_sumc2 :: real
  sv_phiJminus1 :: real
  sv_jstep :: nat

text \<open>Lines 176 to 187: the uncertainty \<open>hstep + 1\<close> ahead, the prediction \<open>hstep\<close> ahead,
  the residual. In \<^verbatim>\<open>s[i + hstep % m]\<close> the remainder binds tighter than the sum.\<close>

definition new_sigma2 :: "params \<Rightarrow> nat \<Rightarrow> state \<Rightarrow> fl" where
  "new_sigma2 P i st =
     (if sv_jstep st = p_hstep P then fmul (sv_sigma st ! i) (sv_sigma st ! i)
      else sv_sigma2 st)"

definition predicted_sigma :: "params \<Rightarrow> nat \<Rightarrow> state \<Rightarrow> fl list" where
  "predicted_sigma P i st =
     (sv_sigma st)[i + p_hstep P + 1 := fsqrt (fmul (new_sigma2 P i st) (Num (sv_sumc2 st)))]"

definition prediction :: "params \<Rightarrow> nat \<Rightarrow> state \<Rightarrow> fl" where
  "prediction P i st =
     fadd (fadd (sv_l st) (fmul (Num (phiHminus1 P)) (sv_b st)))
          (sv_s st ! (i + p_hstep P mod p_m P))"

definition predicted_yhat :: "params \<Rightarrow> nat \<Rightarrow> state \<Rightarrow> fl list" where
  "predicted_yhat P i st = (sv_yhat st)[i + p_hstep P := prediction P i st]"

definition residual :: "fl list \<Rightarrow> params \<Rightarrow> nat \<Rightarrow> state \<Rightarrow> fl" where
  "residual yobs P i st =
     (if i < length yobs then fsub (yobs ! i) (predicted_yhat P i st ! i) else NaN)"

definition rejected :: "fl list \<Rightarrow> params \<Rightarrow> nat \<Rightarrow> state \<Rightarrow> bool" where
  "rejected yobs P i st =
     (let et = residual yobs P i st
      in isnan et \<or> fgt (fabs et) (fmul (Num (p_zthresh P)) (predicted_sigma P i st ! i)))"

text \<open>Lines 212 and 229: the update of sigma from the residual.\<close>

definition adapted_sigma :: "params \<Rightarrow> fl \<Rightarrow> fl \<Rightarrow> fl" where
  "adapted_sigma P et sg =
     fadd (fmul (Num (p_alpha P)) (fabs et)) (fmul (Num (1 - p_alpha P)) sg)"

text \<open>One iteration of the loop, lines 173 to 233.\<close>

definition step :: "fl list \<Rightarrow> params \<Rightarrow> nat \<Rightarrow> state \<Rightarrow> state" where
  "step yobs P i st =
    (let sigma2 = new_sigma2 P i st;
         sigma = predicted_sigma P i st;
         yhat = predicted_yhat P i st;
         et = residual yobs P i st
     in if rejected yobs P i st then
          (let st1 = st\<lparr>sv_r := (sv_r st)[i + 1 := Num 0],
                        sv_s := (sv_s st)[i + p_m P := sv_s st ! i],
                        sv_l := fadd (sv_l st) (fmul (Num (p_phi P)) (sv_b st)),
                        sv_b := fmul (Num (p_phi P)) (sv_b st),
                        sv_yhat := yhat,
                        sv_sigma2 := sigma2\<rparr>
           in if isnan et then
                (let phiJ = sv_phiJminus1 st + p_phi P ^ sv_jstep st
                 in st1\<lparr>sv_sigma := sigma,
                        sv_phiJminus1 := phiJ,
                        sv_sumc2 := sv_sumc2 st + (coeff P phiJ (sv_jstep st)) ^ 2,
                        sv_jstep := sv_jstep st + 1\<rparr>)
              else st1\<lparr>sv_sigma := sigma[i + 1 := adapted_sigma P et (sigma ! i)]\<rparr>)
        else
          st\<lparr>sv_r := (sv_r st)[i + 1 :=
                 fdiv (fmul (Num (p_gamma P * (1 - p_alpha P))) et) (Num (real (p_m P)))],
             sv_s := (sv_s st)[i + p_m P :=
                 fadd (sv_s st ! i) (fmul (Num (p_gamma P * (1 - p_alpha P))) et)],
             sv_l := fadd (fadd (sv_l st) (fmul (Num (p_phi P)) (sv_b st)))
                          (fmul (Num (p_alpha P)) et),
             sv_b := fadd (fmul (Num (p_phi P)) (sv_b st))
                          (fmul (Num (p_alpha P * p_beta P)) et),
             sv_yhat := yhat,
             sv_sigma2 := sigma2,
             sv_sigma := sigma[i + 1 := adapted_sigma P et (sigma ! i)],
             sv_sumc2 := sumc2_H P,
             sv_phiJminus1 := phiHminus1 P,
             sv_jstep := p_hstep P\<rparr>)"

text \<open>Lines 149 to 169: the arrays extended by one zero for each step, the corrector \<open>r\<close>
  started at the mean of the seasonal entries, the horizon variables at their baseline.\<close>

definition initial_state ::
  "params \<Rightarrow> nat \<Rightarrow> fl \<Rightarrow> fl \<Rightarrow> fl list \<Rightarrow> fl list \<Rightarrow> fl list \<Rightarrow> state" where
  "initial_state P n l b yhat s sigma =
     \<lparr>sv_l = l, sv_b = b,
      sv_s = s @ replicate n (Num 0),
      sv_r = nanmean s # replicate n (Num 0),
      sv_sigma = sigma @ replicate n (Num 0),
      sv_yhat = yhat @ replicate n (Num 0),
      sv_sigma2 = NaN,
      sv_sumc2 = sumc2_H P,
      sv_phiJminus1 = phiHminus1 P,
      sv_jstep = p_hstep P\<rparr>"

text \<open>The state after the first \<open>k\<close> iterations.\<close>

definition run :: "fl list \<Rightarrow> params \<Rightarrow> nat \<Rightarrow> state \<Rightarrow> state" where
  "run yobs P k st = fold (step yobs P) [0..<k] st"

section \<open>The engine\<close>

record result =
  yhat_out :: "fl list"
  shat :: "fl list"
  sigmahat :: "fl list"
  yhat0next :: "fl list"
  s0next :: "fl list"
  l0next :: fl
  b0next :: fl
  sigma0next :: "fl list"
  alpha_out :: real
  beta_out :: real
  gamma_out :: real

text \<open>Lines 237 to 251: the corrector is integrated, its last value moves from the seasonal
  entries to the level, and the arrays are cut into the series and the continuation state.\<close>

definition finalize :: "params \<Rightarrow> nat \<Rightarrow> state \<Rightarrow> result" where
  "finalize P n st =
     (let r = cumsum (sv_r st);
          l = fadd (sv_l st) (last r);
          s = map2 fsub (sv_s st) (r @ replicate (p_m P - 1) (last r))
      in \<lparr>yhat_out = take n (sv_yhat st),
          shat = take n s,
          sigmahat = take n (drop 1 (sv_sigma st)),
          yhat0next = drop n (sv_yhat st),
          s0next = drop n s,
          l0next = l,
          b0next = sv_b st,
          sigma0next = drop n (sv_sigma st),
          alpha_out = p_alpha P,
          beta_out = p_beta P,
          gamma_out = p_gamma P\<rparr>)"

text \<open>Lines 143 to 251, from the checked arguments on.\<close>

definition smooth :: "fl list \<Rightarrow> params \<Rightarrow> nat \<Rightarrow> fl \<Rightarrow> fl \<Rightarrow> fl list \<Rightarrow> fl list \<Rightarrow> fl list
    \<Rightarrow> result" where
  "smooth yobs P fc l b yhat s sigma =
     (let n = length yobs + fc
      in finalize P n (run yobs P n (initial_state P n l b yhat s sigma)))"

text \<open>Lines 105 to 136: the defaults of the initial state.\<close>

definition default_l :: "fl list \<Rightarrow> nat \<Rightarrow> fl" where
  "default_l yobs m = nanmean (take m yobs)"

definition default_b :: "fl list \<Rightarrow> nat \<Rightarrow> fl" where
  "default_b yobs m =
     (let b = fdiv (fsub (nanmean (take m (drop m yobs))) (nanmean (take m yobs)))
                   (Num (real m))
      in if isnan b then Num 0 else b)"

definition default_s :: "fl list \<Rightarrow> nat \<Rightarrow> fl \<Rightarrow> fl list" where
  "default_s yobs m l =
     map (\<lambda>v. if isnan v then Num 0 else v) (map (\<lambda>i. fsub (yobs ! i) l) [0..<m])"

definition default_sigma :: "fl list \<Rightarrow> nat \<Rightarrow> fl list" where
  "default_sigma yobs hstep = replicate (hstep + 1) (fsqrt (nanvar yobs))"

text \<open>
  \<open>additive\<close>, lines 20 to 251. An argument left at \<^verbatim>\<open>None\<close> is \<open>None\<close>. The checks run in
  the order of the source. The default of \<open>s0\<close> reads \<open>yobs[i]\<close> for \<open>i < m\<close>, an
  \<open>IndexError\<close> on a shorter series. With \<open>m = 0\<close> the remainders \<^verbatim>\<open>h % m\<close> and
  \<^verbatim>\<open>hstep % m\<close> raise \<open>ZeroDivisionError\<close>; when neither is reached, \<^verbatim>\<open>np.tile(r[-1], m - 1)\<close>
  raises \<open>ValueError\<close>.
\<close>

definition additive ::
  "fl list \<Rightarrow> nat \<Rightarrow> real option \<Rightarrow> real option \<Rightarrow> real option \<Rightarrow> real option
    \<Rightarrow> fl list option \<Rightarrow> fl list option \<Rightarrow> fl option \<Rightarrow> fl option \<Rightarrow> fl list option
    \<Rightarrow> real \<Rightarrow> nat \<Rightarrow> nat \<Rightarrow> error + result" where
  "additive yobs m alpha beta gamma phi yhat0 s0 l0 b0 sigma0 zthresh fc hstep =
    (if alpha = None then Inl (AlgorithmException ''alpha is required'')
     else if beta = None then Inl (AlgorithmException ''beta is required'')
     else if gamma = None then Inl (AlgorithmException ''gamma is required'')
     else if phi = None then Inl (AlgorithmException ''phi is required'')
     else
       let l = (case l0 of None \<Rightarrow> default_l yobs m | Some v \<Rightarrow> v);
           b = (case b0 of None \<Rightarrow> default_b yobs m | Some v \<Rightarrow> v);
           yhat = (case yhat0 of None \<Rightarrow> replicate hstep NaN | Some v \<Rightarrow> v)
       in if length yhat \<noteq> hstep
          then Inl (AlgorithmException (''yhat0 must have length '' @ show_nat hstep))
          else if s0 = None \<and> length yobs < m then Inl IndexError
          else
            let s = (case s0 of None \<Rightarrow> default_s yobs m l | Some v \<Rightarrow> v)
            in if length s \<noteq> m
               then Inl (AlgorithmException (''s0 must have length '' @ show_nat m @ '' ''))
               else
                 let sigma = (case sigma0 of None \<Rightarrow> default_sigma yobs hstep | Some v \<Rightarrow> v)
                 in if length sigma \<noteq> hstep + 1
                    then Inl (AlgorithmException
                                (''sigma0 must have length '' @ show_nat (hstep + 1)))
                    else if m = 0
                    then Inl (if 2 \<le> hstep \<or> 0 < length yobs + fc
                              then ZeroDivisionError else ValueError)
                    else Inr (smooth yobs
                                \<lparr>p_m = m, p_alpha = the alpha, p_beta = the beta,
                                 p_gamma = the gamma, p_phi = the phi,
                                 p_zthresh = zthresh, p_hstep = hstep\<rparr>
                                fc l b yhat s sigma))"

section \<open>The parameter estimator\<close>

text \<open>
  \<open>estimate_parameters\<close>, lines 254 to 356. The optimizer \<^verbatim>\<open>scipy.optimize.fmin_l_bfgs_b\<close>
  is not part of the repository: it is a parameter \<open>opt\<close> of the model, called with the
  objective, the starting point and the bounds, and returning the point it found with the
  value of the objective there, or the error the objective raised. Unpacking a vector that
  does not have three entries is a \<open>ValueError\<close>.
\<close>

definition rmse :: "fl list \<Rightarrow> fl list \<Rightarrow> fl" where
  "rmse yobs yhat = fsqrt (nanmean (map (\<lambda>d. fmul d d) (map2 fsub yobs yhat)))"

text \<open>The objective \<open>func\<close>, lines 333 to 350: the engine is called with the candidate
  parameters and with \<open>l0\<close>, \<open>b0\<close>, \<open>s0\<close>, \<open>zthresh\<close> and \<open>hstep\<close>; \<open>phi\<close>, \<open>yhat0\<close>, \<open>sigma0\<close> and
  \<open>fc\<close> are left at the defaults of \<open>additive\<close>.\<close>

definition func :: "fl list \<Rightarrow> nat \<Rightarrow> fl list option \<Rightarrow> fl option \<Rightarrow> fl option \<Rightarrow> real \<Rightarrow> nat
    \<Rightarrow> real list \<Rightarrow> error + fl" where
  "func yobs m s0 l0 b0 zthresh hstep params =
     (case params of
        [alpha, beta, gamma] \<Rightarrow>
          (case additive yobs m (Some alpha) (Some beta) (Some gamma) (Some 1)
                  None s0 l0 b0 None zthresh 0 hstep of
             Inl e \<Rightarrow> Inl e
           | Inr res \<Rightarrow> Inr (rmse yobs (yhat_out res)))
      | _ \<Rightarrow> Inl ValueError)"

type_synonym optimizer =
  "(real list \<Rightarrow> error + fl) \<Rightarrow> real list \<Rightarrow> (real \<times> real) list \<Rightarrow> error + (real list \<times> fl)"

definition estimate_parameters ::
  "optimizer \<Rightarrow> fl list \<Rightarrow> nat \<Rightarrow> real option \<Rightarrow> real option \<Rightarrow> real option \<Rightarrow> real option
    \<Rightarrow> fl list option \<Rightarrow> fl list option \<Rightarrow> fl option \<Rightarrow> fl option \<Rightarrow> fl list option
    \<Rightarrow> real \<Rightarrow> nat \<Rightarrow> nat \<Rightarrow> real \<Rightarrow> real \<Rightarrow> real \<Rightarrow> error + (real \<times> real \<times> real \<times> fl)" where
  "estimate_parameters opt yobs m alpha beta gamma phi yhat0 s0 l0 b0 sigma0 zthresh fc hstep
      alpha0 beta0 gamma0 =
     (let boundaries =
            [case alpha of Some a \<Rightarrow> (a, a) | None \<Rightarrow> (0, 1),
             case beta of Some b \<Rightarrow> (b, b) | None \<Rightarrow> (0, 1),
             case gamma of Some g \<Rightarrow> (g, g) | None \<Rightarrow> (0, 1)];
          initial_values =
            [case alpha of Some a \<Rightarrow> a | None \<Rightarrow> alpha0,
             case beta of Some b \<Rightarrow> b | None \<Rightarrow> beta0,
             case gamma of Some g \<Rightarrow> g | None \<Rightarrow> gamma0]
      in case opt (func yobs m s0 l0 b0 zthresh hstep) initial_values boundaries of
           Inl e \<Rightarrow> Inl e
         | Inr (x, f) \<Rightarrow>
             (case x of
                [alpha', beta', gamma'] \<Rightarrow> Inr (alpha', beta', gamma', f)
              | _ \<Rightarrow> Inl ValueError))"




section \<open>Valid arguments\<close>

text \<open>The engine returns a result exactly when every check passes.\<close>

definition valid_args :: "fl list \<Rightarrow> nat \<Rightarrow> real option \<Rightarrow> real option \<Rightarrow> real option
    \<Rightarrow> real option \<Rightarrow> fl list option \<Rightarrow> fl list option \<Rightarrow> fl list option \<Rightarrow> nat \<Rightarrow> bool" where
  "valid_args yobs m alpha beta gamma phi yhat0 s0 sigma0 hstep =
     (alpha \<noteq> None \<and> beta \<noteq> None \<and> gamma \<noteq> None \<and> phi \<noteq> None \<and> 0 < m
      \<and> (case yhat0 of None \<Rightarrow> True | Some v \<Rightarrow> length v = hstep)
      \<and> (case s0 of None \<Rightarrow> m \<le> length yobs | Some v \<Rightarrow> length v = m)
      \<and> (case sigma0 of None \<Rightarrow> True | Some v \<Rightarrow> length v = hstep + 1))"

definition the_params :: "nat \<Rightarrow> real option \<Rightarrow> real option \<Rightarrow> real option \<Rightarrow> real option
    \<Rightarrow> real \<Rightarrow> nat \<Rightarrow> params" where
  "the_params m alpha beta gamma phi zthresh hstep =
     \<lparr>p_m = m, p_alpha = the alpha, p_beta = the beta, p_gamma = the gamma, p_phi = the phi,
      p_zthresh = zthresh, p_hstep = hstep\<rparr>"

definition init_l :: "fl list \<Rightarrow> nat \<Rightarrow> fl option \<Rightarrow> fl" where
  "init_l yobs m l0 = (case l0 of None \<Rightarrow> default_l yobs m | Some v \<Rightarrow> v)"

definition init_b :: "fl list \<Rightarrow> nat \<Rightarrow> fl option \<Rightarrow> fl" where
  "init_b yobs m b0 = (case b0 of None \<Rightarrow> default_b yobs m | Some v \<Rightarrow> v)"

definition init_yhat :: "nat \<Rightarrow> fl list option \<Rightarrow> fl list" where
  "init_yhat hstep yhat0 = (case yhat0 of None \<Rightarrow> replicate hstep NaN | Some v \<Rightarrow> v)"

definition init_s :: "fl list \<Rightarrow> nat \<Rightarrow> fl \<Rightarrow> fl list option \<Rightarrow> fl list" where
  "init_s yobs m l s0 = (case s0 of None \<Rightarrow> default_s yobs m l | Some v \<Rightarrow> v)"

definition init_sigma :: "fl list \<Rightarrow> nat \<Rightarrow> fl list option \<Rightarrow> fl list" where
  "init_sigma yobs hstep sigma0 = (case sigma0 of None \<Rightarrow> default_sigma yobs hstep | Some v \<Rightarrow> v)"

section \<open>Resuming from a continuation state\<close>

text \<open>The engine run over a prefix of the series, then over the rest with the continuation
  state of the first call as initial state, as a caller resumes it.\<close>

definition resume ::
  "fl list \<Rightarrow> fl list \<Rightarrow> nat \<Rightarrow> real option \<Rightarrow> real option \<Rightarrow> real option \<Rightarrow> real option
    \<Rightarrow> fl list option \<Rightarrow> fl list option \<Rightarrow> fl option \<Rightarrow> fl option \<Rightarrow> fl list option
    \<Rightarrow> real \<Rightarrow> nat \<Rightarrow> nat \<Rightarrow> error + result" where
  "resume pre suf m alpha beta gamma phi yhat0 s0 l0 b0 sigma0 zthresh fc hstep =
     (case additive pre m alpha beta gamma phi yhat0 s0 l0 b0 sigma0 zthresh 0 hstep of
        Inl e \<Rightarrow> Inl e
      | Inr r1 \<Rightarrow>
          additive suf m alpha beta gamma phi (Some (yhat0next r1)) (Some (s0next r1))
            (Some (l0next r1)) (Some (b0next r1)) (Some (sigma0next r1)) zthresh fc hstep)"

section \<open>Views and invariants of the loop\<close>

text \<open>The seasonal state at step \<open>i\<close> is the window \<open>s[i], \<dots>, s[i + m - 1]\<close> of the
  seasonal array. As a cyclic buffer of \<open>m\<close> slots, slot \<open>k\<close> holds the entry of the window
  whose index is congruent to \<open>k\<close> modulo \<open>m\<close>.\<close>

definition seasonal_ring :: "params \<Rightarrow> nat \<Rightarrow> state \<Rightarrow> fl list" where
  "seasonal_ring P i st =
     map (\<lambda>k. sv_s st ! (i + (k + p_m P - i mod p_m P) mod p_m P)) [0..<p_m P]"

text \<open>The state of the engine's loop after \<open>k\<close> iterations, from the arguments of \<open>additive\<close>.\<close>

definition engine_state ::
  "fl list \<Rightarrow> nat \<Rightarrow> real option \<Rightarrow> real option \<Rightarrow> real option \<Rightarrow> real option
    \<Rightarrow> fl list option \<Rightarrow> fl list option \<Rightarrow> fl option \<Rightarrow> fl option \<Rightarrow> fl list option
    \<Rightarrow> real \<Rightarrow> nat \<Rightarrow> nat \<Rightarrow> nat \<Rightarrow> state" where
  "engine_state yobs m alpha beta gamma phi yhat0 s0 l0 b0 sigma0 zthresh fc hstep k =
     run yobs (the_params m alpha beta gamma phi zthresh hstep) k
       (initial_state (the_params m alpha beta gamma phi zthresh hstep) (length yobs + fc)
          (init_l yobs m l0) (init_b yobs m b0) (init_yhat hstep yhat0)
          (init_s yobs m (init_l yobs m l0) s0) (init_sigma yobs hstep sigma0))"

text \<open>The invariant of the loop behind the renormalisation: the seasonal entries and the
  corrector terms are numbers, and the window of \<open>m\<close> seasonal entries at step \<open>i\<close> sums to
  \<open>m\<close> times the corrector terms so far.\<close>

definition corrector_inv :: "params \<Rightarrow> nat \<Rightarrow> state \<Rightarrow> bool" where
  "corrector_inv P i st =
     (list_all is_num (sv_s st) \<and> list_all is_num (sv_r st)
      \<and> (\<Sum>j = i..<i + p_m P. the_num (sv_s st ! j))
          = real (p_m P) * (\<Sum>j = 0..<Suc i. the_num (sv_r st ! j)))"

text \<open>With \<open>alpha = beta = gamma = 0\<close> and a zero slope, the loop keeps the level and the slope
  and carries the seasonal entries forward.\<close>

definition frozen :: "params \<Rightarrow> fl \<Rightarrow> fl list \<Rightarrow> nat \<Rightarrow> state \<Rightarrow> bool" where
  "frozen P l s k st =
     (sv_l st = l \<and> sv_b st = Num 0
      \<and> (\<forall>j. j < k + p_m P \<longrightarrow> sv_s st ! j = s ! (j mod p_m P)))"




text \<open>Two states of the loop that agree, the arrays of the second being those of the first
  followed by \<open>z\<close> zeros: the run over a prefix against the run over the whole series.\<close>

definition padded :: "nat \<Rightarrow> state \<Rightarrow> state \<Rightarrow> bool" where
  "padded z st st' =
     (sv_l st' = sv_l st \<and> sv_b st' = sv_b st \<and> sv_sigma2 st' = sv_sigma2 st
      \<and> sv_sumc2 st' = sv_sumc2 st \<and> sv_phiJminus1 st' = sv_phiJminus1 st
      \<and> sv_jstep st' = sv_jstep st
      \<and> sv_s st' = sv_s st @ replicate z (Num 0)
      \<and> sv_r st' = sv_r st @ replicate z (Num 0)
      \<and> sv_sigma st' = sv_sigma st @ replicate z (Num 0)
      \<and> sv_yhat st' = sv_yhat st @ replicate z (Num 0))"

text \<open>The run over the whole series after \<open>t + k\<close> steps against the resumed run after \<open>k\<close>
  steps: the resumed arrays are those of the whole run from index \<open>t\<close> on, with the amount \<open>c\<close>
  that the first call moved from the seasonal entries to the level.\<close>

definition resumed :: "params \<Rightarrow> real \<Rightarrow> nat \<Rightarrow> nat \<Rightarrow> state \<Rightarrow> state \<Rightarrow> bool" where
  "resumed P c t k st st' =
     (sv_l st' = fadd (sv_l st) (Num c) \<and> sv_b st' = sv_b st
      \<and> sv_jstep st' = sv_jstep st \<and> sv_sumc2 st' = sv_sumc2 st
      \<and> sv_phiJminus1 st' = sv_phiJminus1 st
      \<and> (sv_jstep st = p_hstep P \<or> sv_sigma2 st' = sv_sigma2 st)
      \<and> sv_yhat st' = drop t (sv_yhat st)
      \<and> sv_sigma st' = drop t (sv_sigma st)
      \<and> drop 1 (sv_r st') = drop (Suc t) (sv_r st)
      \<and> length (sv_s st') + t = length (sv_s st)
      \<and> (\<forall>j<k + p_m P. sv_s st' ! j = fsub (sv_s st ! (t + j)) (Num c)))"

text \<open>The horizon counter never falls below \<open>hstep\<close>, and at \<open>hstep\<close> the accumulator is at
  its baseline.\<close>

definition base_inv :: "params \<Rightarrow> state \<Rightarrow> bool" where
  "base_inv P st =
     (p_hstep P \<le> sv_jstep st
      \<and> (sv_jstep st = p_hstep P
           \<longrightarrow> sv_sumc2 st = sumc2_H P \<and> sv_phiJminus1 st = phiHminus1 P))"

section \<open>Basic facts about the loop\<close>

lemma run_0: "run yobs P 0 st = st"
  by (simp add: run_def)

lemma run_Suc: "run yobs P (Suc k) st = step yobs P k (run yobs P k st)"
  by (simp add: run_def)

lemma length_cumsum_from: "length (cumsum_from a xs) = length xs"
  by (induction xs arbitrary: a) simp_all

lemma length_cumsum: "length (cumsum xs) = length xs"
  by (simp add: cumsum_def length_cumsum_from)

lemma step_lengths:
  "length (sv_s (step yobs P i st)) = length (sv_s st)"
  "length (sv_r (step yobs P i st)) = length (sv_r st)"
  "length (sv_sigma (step yobs P i st)) = length (sv_sigma st)"
  "length (sv_yhat (step yobs P i st)) = length (sv_yhat st)"
  by (simp_all add: step_def Let_def predicted_sigma_def predicted_yhat_def)

lemma run_lengths:
  "length (sv_s (run yobs P k st)) = length (sv_s st)"
  "length (sv_r (run yobs P k st)) = length (sv_r st)"
  "length (sv_sigma (run yobs P k st)) = length (sv_sigma st)"
  "length (sv_yhat (run yobs P k st)) = length (sv_yhat st)"
  by (induction k) (simp_all add: run_0 run_Suc step_lengths)

lemma initial_lengths:
  "length (sv_s (initial_state P n l b yhat s sigma)) = length s + n"
  "length (sv_r (initial_state P n l b yhat s sigma)) = Suc n"
  "length (sv_sigma (initial_state P n l b yhat s sigma)) = length sigma + n"
  "length (sv_yhat (initial_state P n l b yhat s sigma)) = length yhat + n"
  by (simp_all add: initial_state_def)

lemma smooth_lengths:
  assumes "0 < p_m P" and "length s = p_m P" and "length sigma = p_hstep P + 1"
  shows "length (yhat_out (smooth yobs P fc l b yhat s sigma)) = length yobs + fc"
    and "length (shat (smooth yobs P fc l b yhat s sigma)) = length yobs + fc"
    and "length (sigmahat (smooth yobs P fc l b yhat s sigma)) = length yobs + fc"
    and "length (yhat0next (smooth yobs P fc l b yhat s sigma)) = length yhat"
    and "length (s0next (smooth yobs P fc l b yhat s sigma)) = length s"
    and "length (sigma0next (smooth yobs P fc l b yhat s sigma)) = length sigma"
  using assms
  by (auto simp add: smooth_def finalize_def Let_def run_lengths initial_lengths length_cumsum)

lemma additive_valid:
  assumes "valid_args yobs m alpha beta gamma phi yhat0 s0 sigma0 hstep"
  shows "additive yobs m alpha beta gamma phi yhat0 s0 l0 b0 sigma0 zthresh fc hstep =
     Inr (smooth yobs (the_params m alpha beta gamma phi zthresh hstep) fc
            (init_l yobs m l0) (init_b yobs m b0) (init_yhat hstep yhat0)
            (init_s yobs m (init_l yobs m l0) s0) (init_sigma yobs hstep sigma0))"
  using assms
  by (auto simp add: valid_args_def additive_def the_params_def init_l_def init_b_def
      init_yhat_def init_s_def init_sigma_def Let_def default_s_def default_sigma_def
      split: option.splits)

lemma additive_Inr_valid:
  assumes "additive yobs m alpha beta gamma phi yhat0 s0 l0 b0 sigma0 zthresh fc hstep = Inr res"
  shows "valid_args yobs m alpha beta gamma phi yhat0 s0 sigma0 hstep"
  using assms
  by (auto simp add: valid_args_def additive_def Let_def default_s_def default_sigma_def
      split: option.splits if_splits)

lemma init_lengths:
  assumes "valid_args yobs m alpha beta gamma phi yhat0 s0 sigma0 hstep"
  shows "length (init_yhat hstep yhat0) = hstep"
    and "length (init_s yobs m l s0) = m"
    and "length (init_sigma yobs hstep sigma0) = hstep + 1"
  using assms
  by (auto simp add: valid_args_def init_yhat_def init_s_def init_sigma_def default_s_def
      default_sigma_def split: option.splits)

lemma ring_index:
  fixes i h m :: nat
  assumes "0 < m"
  shows "((i + h) mod m + m - i mod m) mod m = h mod m"
proof -
  have a: "i mod m < m" and b: "h mod m < m" using assms by simp_all
  have e: "(i + h) mod m = (i mod m + h mod m) mod m" by (simp add: mod_add_eq)
  show ?thesis
  proof (cases "i mod m + h mod m < m")
    case True
    then have "(i + h) mod m = i mod m + h mod m" using e by simp
    then have "(i + h) mod m + m - i mod m = h mod m + m" by simp
    then show ?thesis by simp
  next
    case False
    then have ge: "m \<le> i mod m + h mod m" by simp
    have lt: "i mod m + h mod m - m < m" using a b by arith
    have "(i mod m + h mod m) mod m = (i mod m + h mod m - m) mod m"
      using ge by (rule le_mod_geq)
    then have "(i mod m + h mod m) mod m = i mod m + h mod m - m"
      using lt by simp
    then have "(i + h) mod m + m - i mod m = h mod m" using e False by simp
    then show ?thesis by simp
  qed
qed

lemma ring_slot:
  fixes i k m :: nat
  assumes "0 < m" and "k < m"
  shows "i \<le> i + (k + m - i mod m) mod m" and "i + (k + m - i mod m) mod m < i + m"
    and "(i + (k + m - i mod m) mod m) mod m = k"
proof -
  show "i \<le> i + (k + m - i mod m) mod m" by simp
  show "i + (k + m - i mod m) mod m < i + m" using assms by simp
  have a: "i mod m < m" using assms by simp
  have "(i + (k + m - i mod m) mod m) mod m = (i mod m + (k + m - i mod m)) mod m"
    by (metis mod_add_eq mod_mod_trivial)
  also have "i mod m + (k + m - i mod m) = k + m" using a by simp
  finally show "(i + (k + m - i mod m) mod m) mod m = k" using assms by simp
qed

lemma phiHminus1_sum_aux:
  "fst (fold (baseline_step P) [1..<Suc k] (0, 1)) = (\<Sum>h = 1..<Suc k. p_phi P ^ (h - 1))"
  by (induction k) (simp_all add: baseline_step_def Let_def)

lemma phiHminus1_sum: "phiHminus1 P = (\<Sum>h = 1..<p_hstep P. p_phi P ^ (h - 1))"
proof (cases "p_hstep P")
  case 0
  then show ?thesis by (simp add: phiHminus1_def baseline_def)
next
  case (Suc k)
  then show ?thesis using phiHminus1_sum_aux [of P k] by (simp add: phiHminus1_def baseline_def)
qed

lemma step_yhat:
  "sv_yhat (step yobs P i st) = (sv_yhat st)[i + p_hstep P := prediction P i st]"
  by (simp add: step_def Let_def predicted_yhat_def)

lemma step_yhat_other:
  "j \<noteq> i + p_hstep P \<Longrightarrow> sv_yhat (step yobs P i st) ! j = sv_yhat st ! j"
  by (simp add: step_yhat)

lemma run_yhat_stable:
  assumes "j < i + p_hstep P"
  shows "sv_yhat (run yobs P (i + d) st) ! j = sv_yhat (run yobs P i st) ! j"
  using assms by (induction d) (simp_all add: run_Suc step_yhat_other)


lemma step_gap:
  assumes "isnan (residual yobs P i st)"
  shows "step yobs P i st =
     st\<lparr>sv_r := (sv_r st)[i + 1 := Num 0],
        sv_s := (sv_s st)[i + p_m P := sv_s st ! i],
        sv_l := fadd (sv_l st) (fmul (Num (p_phi P)) (sv_b st)),
        sv_b := fmul (Num (p_phi P)) (sv_b st),
        sv_yhat := predicted_yhat P i st,
        sv_sigma2 := new_sigma2 P i st,
        sv_sigma := predicted_sigma P i st,
        sv_phiJminus1 := sv_phiJminus1 st + p_phi P ^ sv_jstep st,
        sv_sumc2 := sv_sumc2 st
           + (coeff P (sv_phiJminus1 st + p_phi P ^ sv_jstep st) (sv_jstep st)) ^ 2,
        sv_jstep := sv_jstep st + 1\<rparr>"
  using assms by (simp add: step_def rejected_def Let_def)

lemma step_outlier:
  assumes "\<not> isnan (residual yobs P i st)" and "rejected yobs P i st"
  shows "step yobs P i st =
     st\<lparr>sv_r := (sv_r st)[i + 1 := Num 0],
        sv_s := (sv_s st)[i + p_m P := sv_s st ! i],
        sv_l := fadd (sv_l st) (fmul (Num (p_phi P)) (sv_b st)),
        sv_b := fmul (Num (p_phi P)) (sv_b st),
        sv_yhat := predicted_yhat P i st,
        sv_sigma2 := new_sigma2 P i st,
        sv_sigma := (predicted_sigma P i st)
           [i + 1 := adapted_sigma P (residual yobs P i st) (predicted_sigma P i st ! i)]\<rparr>"
  using assms by (simp add: step_def Let_def)

lemma step_assimilate:
  assumes "\<not> rejected yobs P i st"
  shows "step yobs P i st =
     st\<lparr>sv_r := (sv_r st)[i + 1 :=
           fdiv (fmul (Num (p_gamma P * (1 - p_alpha P))) (residual yobs P i st))
                (Num (real (p_m P)))],
        sv_s := (sv_s st)[i + p_m P :=
           fadd (sv_s st ! i) (fmul (Num (p_gamma P * (1 - p_alpha P))) (residual yobs P i st))],
        sv_l := fadd (fadd (sv_l st) (fmul (Num (p_phi P)) (sv_b st)))
                     (fmul (Num (p_alpha P)) (residual yobs P i st)),
        sv_b := fadd (fmul (Num (p_phi P)) (sv_b st))
                     (fmul (Num (p_alpha P * p_beta P)) (residual yobs P i st)),
        sv_yhat := predicted_yhat P i st,
        sv_sigma2 := new_sigma2 P i st,
        sv_sigma := (predicted_sigma P i st)
           [i + 1 := adapted_sigma P (residual yobs P i st) (predicted_sigma P i st ! i)],
        sv_sumc2 := sumc2_H P,
        sv_phiJminus1 := phiHminus1 P,
        sv_jstep := p_hstep P\<rparr>"
  using assms by (simp add: step_def Let_def)

lemma predicted_sigma_here: "predicted_sigma P i st ! i = sv_sigma st ! i"
  by (simp add: predicted_sigma_def)

lemma rejected_iff:
  "rejected yobs P i st \<longleftrightarrow>
     isnan (residual yobs P i st)
     \<or> fgt (fabs (residual yobs P i st)) (fmul (Num (p_zthresh P)) (sv_sigma st ! i))"
  by (simp add: rejected_def Let_def predicted_sigma_here)

lemma residual_after:
  "residual yobs P i st =
     (if i < length yobs then fsub (yobs ! i) (sv_yhat (step yobs P i st) ! i) else NaN)"
  by (simp add: residual_def step_yhat predicted_yhat_def)

lemma run_init_lengths:
  "length (sv_s (run yobs P k (initial_state P n l b yhat s sigma))) = length s + n"
  "length (sv_r (run yobs P k (initial_state P n l b yhat s sigma))) = Suc n"
  "length (sv_sigma (run yobs P k (initial_state P n l b yhat s sigma))) = length sigma + n"
  "length (sv_yhat (run yobs P k (initial_state P n l b yhat s sigma))) = length yhat + n"
  by (simp_all add: run_lengths initial_lengths)


lemmas run_eval = run_0 run_Suc initial_state_def step_yhat prediction_def residual_def
  predicted_yhat_def predicted_sigma_def new_sigma2_def phiHminus1_def sumc2_H_def baseline_def
  baseline_step_def coeff_def nanmean_def nums_def

lemma seasonal_ring_nth:
  assumes "0 < p_m P"
  shows "seasonal_ring P i st ! ((i + p_hstep P) mod p_m P)
           = sv_s st ! (i + p_hstep P mod p_m P)"
  using assms by (simp add: seasonal_ring_def ring_index)

lemma run_written_yhat:
  assumes "i + p_hstep P < length (sv_yhat st)"
  shows "sv_yhat (run yobs P (Suc i + d) st) ! (i + p_hstep P)
           = prediction P i (run yobs P i st)"
proof -
  have "sv_yhat (run yobs P (Suc i + d) st) ! (i + p_hstep P)
          = sv_yhat (run yobs P (Suc i) st) ! (i + p_hstep P)"
    by (rule run_yhat_stable) simp
  also have "\<dots> = prediction P i (run yobs P i st)"
    using assms by (simp add: run_Suc step_yhat run_lengths)
  finally show ?thesis .
qed

section \<open>The seasonal mean\<close>

lemma list_all_update:
  assumes "list_all Q xs" and "Q v"
  shows "list_all Q (xs[i := v])"
  using assms set_update_subset_insert [of xs i v] by (auto simp add: list_all_iff)

lemma is_num_the_num: "is_num x \<Longrightarrow> Num (the_num x) = x"
  by (cases x) simp_all

lemma not_isnan_is_num: "\<not> isnan x \<longleftrightarrow> is_num x"
  by (cases x) simp_all

lemma not_rejected_is_num: "\<not> rejected yobs P i st \<Longrightarrow> is_num (residual yobs P i st)"
  by (simp add: rejected_def Let_def not_isnan_is_num)

lemma step_s_other: "j \<noteq> i + p_m P \<Longrightarrow> sv_s (step yobs P i st) ! j = sv_s st ! j"
  by (simp add: step_def Let_def)

lemma step_r_other: "j \<noteq> i + 1 \<Longrightarrow> sv_r (step yobs P i st) ! j = sv_r st ! j"
  by (simp add: step_def Let_def)

lemma step_corrector:
  assumes "0 < p_m P" and "i + p_m P < length (sv_s st)" and "i + 1 < length (sv_r st)"
    and "is_num (sv_s st ! i)"
  shows "is_num (sv_s (step yobs P i st) ! (i + p_m P))"
    and "is_num (sv_r (step yobs P i st) ! (i + 1))"
    and "the_num (sv_s (step yobs P i st) ! (i + p_m P))
           = the_num (sv_s st ! i) + real (p_m P) * the_num (sv_r (step yobs P i st) ! (i + 1))"
proof -
  obtain x where x: "sv_s st ! i = Num x" using assms(4) by (cases "sv_s st ! i") simp_all
  consider (gap) "isnan (residual yobs P i st)"
    | (outlier) "\<not> isnan (residual yobs P i st)" "rejected yobs P i st"
    | (assimilate) "\<not> rejected yobs P i st"
    by blast
  then have "is_num (sv_s (step yobs P i st) ! (i + p_m P))
      \<and> is_num (sv_r (step yobs P i st) ! (i + 1))
      \<and> the_num (sv_s (step yobs P i st) ! (i + p_m P))
           = the_num (sv_s st ! i) + real (p_m P) * the_num (sv_r (step yobs P i st) ! (i + 1))"
  proof cases
    case gap
    then show ?thesis using assms x by (simp add: step_gap del: One_nat_def)
  next
    case outlier
    then show ?thesis using assms x by (simp add: step_outlier del: One_nat_def)
  next
    case assimilate
    then obtain e where e: "residual yobs P i st = Num e"
      using not_rejected_is_num [OF assimilate] by (cases "residual yobs P i st") simp_all
    show ?thesis using assimilate assms x e by (simp add: step_assimilate del: One_nat_def)
  qed
  then show "is_num (sv_s (step yobs P i st) ! (i + p_m P))"
    and "is_num (sv_r (step yobs P i st) ! (i + 1))"
    and "the_num (sv_s (step yobs P i st) ! (i + p_m P))
           = the_num (sv_s st ! i) + real (p_m P) * the_num (sv_r (step yobs P i st) ! (i + 1))"
    by simp_all
qed

lemma window_shift:
  fixes f f' :: "nat \<Rightarrow> real"
  assumes "0 < m" and "\<And>j. j \<noteq> i + m \<Longrightarrow> f' j = f j" and "f' (i + m) = f i + d"
  shows "(\<Sum>j = Suc i..<Suc i + m. f' j) = (\<Sum>j = i..<i + m. f j) + d"
proof -
  have "(\<Sum>j = Suc i..<Suc i + m. f' j) = (\<Sum>j = Suc i..<i + m. f' j) + f' (i + m)"
    using assms(1) by simp
  also have "(\<Sum>j = Suc i..<i + m. f' j) = (\<Sum>j = Suc i..<i + m. f j)"
    by (rule sum.cong) (simp_all add: assms(2))
  also have "(\<Sum>j = i..<i + m. f j) = f i + (\<Sum>j = Suc i..<i + m. f j)"
    using assms(1) by (simp add: sum.atLeast_Suc_lessThan)
  ultimately show ?thesis using assms(3) by simp
qed

lemma step_s_update:
  assumes "i + p_m P < length (sv_s st)"
  shows "sv_s (step yobs P i st) = (sv_s st)[i + p_m P := sv_s (step yobs P i st) ! (i + p_m P)]"
proof -
  have "\<exists>v. sv_s (step yobs P i st) = (sv_s st)[i + p_m P := v]"
    by (auto simp add: step_def Let_def)
  then obtain v where v: "sv_s (step yobs P i st) = (sv_s st)[i + p_m P := v]" by blast
  have "sv_s (step yobs P i st) ! (i + p_m P) = v"
    using assms by (simp add: v)
  then show ?thesis using v by simp
qed

lemma step_r_update:
  assumes "i + 1 < length (sv_r st)"
  shows "sv_r (step yobs P i st) = (sv_r st)[i + 1 := sv_r (step yobs P i st) ! (i + 1)]"
proof -
  have "\<exists>v. sv_r (step yobs P i st) = (sv_r st)[i + 1 := v]"
    by (auto simp add: step_def Let_def)
  then obtain v where v: "sv_r (step yobs P i st) = (sv_r st)[i + 1 := v]" by blast
  have "sv_r (step yobs P i st) ! (i + 1) = v"
    using assms by (simp add: v)
  then show ?thesis using v by simp
qed

lemma step_corrector_inv:
  assumes "corrector_inv P i st" and "0 < p_m P"
    and "i + p_m P < length (sv_s st)" and "i + 1 < length (sv_r st)"
  shows "corrector_inv P (Suc i) (step yobs P i st)"
proof -
  let ?st = "step yobs P i st"
  have ns: "list_all is_num (sv_s st)" and nr: "list_all is_num (sv_r st)"
    and w: "(\<Sum>j = i..<i + p_m P. the_num (sv_s st ! j))
          = real (p_m P) * (\<Sum>j = 0..<Suc i. the_num (sv_r st ! j))"
    using assms(1) by (simp_all add: corrector_inv_def)
  have si: "is_num (sv_s st ! i)"
    using ns assms(3) by (simp add: list_all_length)
  note c = step_corrector [OF assms(2,3,4) si, of yobs]
  have ns': "list_all is_num (sv_s ?st)"
    by (subst step_s_update [OF assms(3)]) (rule list_all_update [OF ns c(1)])
  have nr': "list_all is_num (sv_r ?st)"
    by (subst step_r_update [OF assms(4)]) (rule list_all_update [OF nr c(2)])
  have "(\<Sum>j = Suc i..<Suc i + p_m P. the_num (sv_s ?st ! j))
      = (\<Sum>j = i..<i + p_m P. the_num (sv_s st ! j))
        + real (p_m P) * the_num (sv_r ?st ! (i + 1))"
    by (rule window_shift [OF assms(2)]) (simp_all add: step_s_other c(3))
  moreover have "(\<Sum>j = 0..<Suc (Suc i). the_num (sv_r ?st ! j))
      = (\<Sum>j = 0..<Suc i. the_num (sv_r st ! j)) + the_num (sv_r ?st ! (i + 1))"
  proof -
    have "(\<Sum>j = 0..<Suc i. the_num (sv_r ?st ! j)) = (\<Sum>j = 0..<Suc i. the_num (sv_r st ! j))"
      by (rule sum.cong) (simp_all add: step_r_other)
    then show ?thesis by simp
  qed
  ultimately have "(\<Sum>j = Suc i..<Suc i + p_m P. the_num (sv_s ?st ! j))
      = real (p_m P) * (\<Sum>j = 0..<Suc (Suc i). the_num (sv_r ?st ! j))"
    using w by (simp add: algebra_simps)
  then show ?thesis using ns' nr' by (simp add: corrector_inv_def)
qed


lemma nums_all: "list_all is_num xs \<Longrightarrow> nums xs = map the_num xs"
  by (induction xs) (simp_all add: nums_def)

lemma nanmean_all:
  assumes "list_all is_num xs" and "xs \<noteq> []"
  shows "nanmean xs = Num (sum_list (map the_num xs) / real (length xs))"
  using assms by (simp add: nanmean_def nums_all)

lemma sum_nth_the_num:
  "(\<Sum>j = 0..<length xs. the_num (xs ! j)) = sum_list (map the_num xs)"
  using sum_list_sum_nth [of "map the_num xs"] by simp

lemma initial_corrector_inv:
  assumes "0 < p_m P" and "length s = p_m P" and "list_all is_num s"
  shows "corrector_inv P 0 (initial_state P n l b yhat s sigma)"
proof -
  have ne: "s \<noteq> []" using assms(1,2) by auto
  have "(\<Sum>j = 0..<p_m P. the_num ((s @ replicate n (Num 0)) ! j))
      = (\<Sum>j = 0..<length s. the_num (s ! j))"
    using assms(2) by (intro sum.cong) (simp_all add: nth_append)
  also have "\<dots> = sum_list (map the_num s)" by (rule sum_nth_the_num)
  finally have w: "(\<Sum>j = 0..<p_m P. the_num ((s @ replicate n (Num 0)) ! j))
      = sum_list (map the_num s)" .
  have "real (p_m P) * the_num (nanmean s) = sum_list (map the_num s)"
    using assms(1,2) by (simp add: nanmean_all [OF assms(3) ne])
  then show ?thesis
    using assms(3) w
    by (auto simp add: corrector_inv_def initial_state_def nanmean_all [OF assms(3) ne]
        list_all_iff)
qed

lemma run_corrector_inv:
  assumes "0 < p_m P" and "length s = p_m P" and "list_all is_num s" and "k \<le> n"
  shows "corrector_inv P k (run yobs P k (initial_state P n l b yhat s sigma))"
  using assms(4)
proof (induction k)
  case 0
  then show ?case by (simp add: run_0 initial_corrector_inv [OF assms(1,2,3)])
next
  case (Suc k)
  then have inv: "corrector_inv P k (run yobs P k (initial_state P n l b yhat s sigma))"
    by simp
  show ?case
    unfolding run_Suc
    by (rule step_corrector_inv [OF inv assms(1)])
       (use Suc.prems assms(2) in \<open>simp_all add: run_init_lengths\<close>)
qed

lemma fold_fadd_nums:
  "list_all is_num xs \<Longrightarrow>
     fold (\<lambda>x acc. fadd acc x) xs (Num a) = Num (a + sum_list (map the_num xs))"
proof (induction xs arbitrary: a)
  case Nil
  then show ?case by simp
next
  case (Cons x xs)
  then obtain v where "x = Num v" by (cases x) simp_all
  then show ?case using Cons by (simp add: add.assoc)
qed

lemma mean_all:
  assumes "list_all is_num xs" and "xs \<noteq> []"
  shows "mean xs = Num (sum_list (map the_num xs) / real (length xs))"
  using assms by (simp add: mean_def fold_fadd_nums)

lemma cumsum_from_nth:
  "list_all is_num xs \<Longrightarrow> k < length xs \<Longrightarrow>
     cumsum_from (Num a) xs ! k = Num (a + (\<Sum>j = 0..<Suc k. the_num (xs ! j)))"
proof (induction xs arbitrary: a k)
  case Nil
  then show ?case by simp
next
  case (Cons x xs)
  obtain v where v: "x = Num v" using Cons.prems(1) by (cases x) simp_all
  show ?case
  proof (cases k)
    case 0
    then show ?thesis using v by simp
  next
    case (Suc k')
    have "(\<Sum>j = 0..<Suc (Suc k'). the_num ((x # xs) ! j))
        = v + (\<Sum>j = 0..<Suc k'. the_num (xs ! j))"
      using v by (simp add: sum.atLeast0_lessThan_Suc_shift del: sum.op_ivl_Suc)
    moreover have "cumsum_from (Num (a + v)) xs ! k'
        = Num (a + v + (\<Sum>j = 0..<Suc k'. the_num (xs ! j)))"
      using Cons.prems Suc by (intro Cons.IH) simp_all
    ultimately show ?thesis using v Suc by (simp add: add.assoc)
  qed
qed

lemma cumsum_nth:
  "list_all is_num xs \<Longrightarrow> k < length xs \<Longrightarrow>
     cumsum xs ! k = Num (\<Sum>j = 0..<Suc k. the_num (xs ! j))"
  using cumsum_from_nth [of xs k 0] by (simp add: cumsum_def)

lemma cumsum_last:
  assumes "list_all is_num xs" and "xs \<noteq> []"
  shows "last (cumsum xs) = Num (\<Sum>j = 0..<length xs. the_num (xs ! j))"
proof -
  have "cumsum xs \<noteq> []" using assms(2) length_cumsum [of xs] by auto
  then have "last (cumsum xs) = cumsum xs ! (length xs - 1)"
    by (simp add: last_conv_nth length_cumsum)
  also have "\<dots> = Num (\<Sum>j = 0..<Suc (length xs - 1). the_num (xs ! j))"
    using assms by (intro cumsum_nth) simp_all
  finally show ?thesis using assms(2) by simp
qed


lemma padded_cumsum_nth:
  assumes "length R = Suc n" and "j < m"
  shows "(R @ replicate (m - 1) (last R)) ! (n + j) = last R"
proof (cases j)
  case 0
  have "R \<noteq> []" using assms(1) by auto
  then have "last R = R ! n" using assms(1) by (simp add: last_conv_nth)
  then show ?thesis using 0 assms(1) by (simp add: nth_append)
next
  case (Suc j')
  then show ?thesis using assms by (simp add: nth_append)
qed

lemma s0next_form:
  assumes "0 < p_m P" and "length (sv_s st) = p_m P + n" and "length (sv_r st) = Suc n"
  shows "s0next (finalize P n st)
           = map (\<lambda>x. fsub x (last (cumsum (sv_r st)))) (drop n (sv_s st))"
proof (rule nth_equalityI)
  show "length (s0next (finalize P n st))
      = length (map (\<lambda>x. fsub x (last (cumsum (sv_r st)))) (drop n (sv_s st)))"
    using assms by (simp add: finalize_def Let_def length_cumsum)
next
  fix j assume "j < length (s0next (finalize P n st))"
  then have j: "j < p_m P"
    using assms by (simp add: finalize_def Let_def length_cumsum)
  have "(cumsum (sv_r st) @ replicate (p_m P - 1) (last (cumsum (sv_r st)))) ! (n + j)
      = last (cumsum (sv_r st))"
    using assms(3) j by (intro padded_cumsum_nth) (simp_all add: length_cumsum)
  then show "s0next (finalize P n st) ! j
      = map (\<lambda>x. fsub x (last (cumsum (sv_r st)))) (drop n (sv_s st)) ! j"
    using assms j by (simp add: finalize_def Let_def length_cumsum)
qed

lemma list_all_drop: "list_all Q xs \<Longrightarrow> list_all Q (drop n xs)"
  using set_drop_subset [of n xs] by (auto simp add: list_all_iff)

lemma sum_list_shifted:
  "list_all is_num ys \<Longrightarrow>
     list_all is_num (map (\<lambda>x. fsub x (Num c)) ys)
     \<and> sum_list (map the_num (map (\<lambda>x. fsub x (Num c)) ys))
         = sum_list (map the_num ys) - real (length ys) * c"
proof (induction ys)
  case Nil
  then show ?case by simp
next
  case (Cons y ys)
  then obtain v where "y = Num v" by (cases y) simp_all
  then show ?case using Cons by (simp add: algebra_simps)
qed

lemma window_sum_drop:
  assumes "length xs = m + n"
  shows "sum_list (map the_num (drop n xs)) = (\<Sum>j = n..<n + m. the_num (xs ! j))"
proof -
  have "sum_list (map the_num (drop n xs)) = (\<Sum>j = 0..<m. the_num (drop n xs ! j))"
    using sum_nth_the_num [of "drop n xs"] assms by simp
  also have "\<dots> = (\<Sum>j = 0..<m. the_num (xs ! (j + n)))"
    using assms by (intro sum.cong) (simp_all add: add.commute)
  also have "\<dots> = (\<Sum>j = 0 + n..<m + n. the_num (xs ! j))"
    by (rule sum.shift_bounds_nat_ivl [symmetric])
  finally show ?thesis by (simp add: add.commute)
qed

lemma finalize_mean_zero:
  assumes "0 < p_m P" and "length (sv_s st) = p_m P + n" and "length (sv_r st) = Suc n"
    and "corrector_inv P n st"
  shows "list_all is_num (s0next (finalize P n st))"
    and "mean (s0next (finalize P n st)) = Num 0"
proof -
  let ?c = "\<Sum>j = 0..<Suc n. the_num (sv_r st ! j)"
  let ?ys = "drop n (sv_s st)"
  have ns: "list_all is_num (sv_s st)" and nr: "list_all is_num (sv_r st)"
    and w: "(\<Sum>j = n..<n + p_m P. the_num (sv_s st ! j)) = real (p_m P) * ?c"
    using assms(4) by (simp_all add: corrector_inv_def)
  have "sv_r st \<noteq> []" using assms(3) by auto
  then have c: "last (cumsum (sv_r st)) = Num ?c"
    using cumsum_last [OF nr] assms(3) by simp
  have form: "s0next (finalize P n st) = map (\<lambda>x. fsub x (Num ?c)) ?ys"
    using s0next_form [OF assms(1,2,3)] c by simp
  have ys: "list_all is_num ?ys" using ns by (rule list_all_drop)
  have len: "length ?ys = p_m P" using assms(2) by simp
  note sh = sum_list_shifted [OF ys, of ?c]
  show "list_all is_num (s0next (finalize P n st))"
    using sh form by simp
  have "sum_list (map the_num ?ys) = real (p_m P) * ?c"
    using window_sum_drop [OF assms(2)] w by simp
  then have "sum_list (map the_num (s0next (finalize P n st))) = 0"
    using sh form len by simp
  moreover have "s0next (finalize P n st) \<noteq> []"
    using form len assms(1) by auto
  ultimately show "mean (s0next (finalize P n st)) = Num 0"
    using mean_all [OF \<open>list_all is_num (s0next (finalize P n st))\<close>] by simp
qed


lemma default_s_nums: "list_all is_num (default_s yobs m l)"
  by (auto simp add: default_s_def list_all_iff not_isnan_is_num [symmetric])

lemma init_s_nums:
  assumes "s0 = None \<or> list_all is_num (the s0)"
  shows "list_all is_num (init_s yobs m l s0)"
  using assms by (cases s0) (simp_all add: init_s_def default_s_nums)

lemma additive_smooth:
  assumes "additive yobs m alpha beta gamma phi yhat0 s0 l0 b0 sigma0 zthresh fc hstep = Inr res"
  shows "res = finalize (the_params m alpha beta gamma phi zthresh hstep) (length yobs + fc)
     (engine_state yobs m alpha beta gamma phi yhat0 s0 l0 b0 sigma0 zthresh fc hstep
        (length yobs + fc))"
  using assms additive_valid [OF additive_Inr_valid [OF assms], of l0 b0 zthresh fc]
  by (simp add: smooth_def engine_state_def Let_def)

lemma additive_Inr_lengths:
  assumes "additive yobs m alpha beta gamma phi yhat0 s0 l0 b0 sigma0 zthresh fc hstep = Inr res"
  shows "length (yhat_out res) = length yobs + fc
       \<and> length (shat res) = length yobs + fc
       \<and> length (sigmahat res) = length yobs + fc
       \<and> length (yhat0next res) = hstep
       \<and> length (s0next res) = m
       \<and> length (sigma0next res) = hstep + 1"
proof -
  have v: "valid_args yobs m alpha beta gamma phi yhat0 s0 sigma0 hstep"
    using assms by (rule additive_Inr_valid)
  have m: "0 < p_m (the_params m alpha beta gamma phi zthresh hstep)"
    using v by (simp add: valid_args_def the_params_def)
  have "res = smooth yobs (the_params m alpha beta gamma phi zthresh hstep) fc
            (init_l yobs m l0) (init_b yobs m b0) (init_yhat hstep yhat0)
            (init_s yobs m (init_l yobs m l0) s0) (init_sigma yobs hstep sigma0)"
    using assms additive_valid [OF v] by simp
  moreover have "length (init_s yobs m (init_l yobs m l0) s0)
      = p_m (the_params m alpha beta gamma phi zthresh hstep)"
    using init_lengths(2) [OF v] by (simp add: the_params_def)
  moreover have "length (init_sigma yobs hstep sigma0)
      = p_hstep (the_params m alpha beta gamma phi zthresh hstep) + 1"
    using init_lengths(3) [OF v] by (simp add: the_params_def)
  ultimately show ?thesis
    using smooth_lengths [OF m] init_lengths [OF v] by simp
qed


section \<open>No adaptation\<close>

lemma fadd_zero: "fadd x (Num 0) = x"
  by (cases x) simp_all

lemma step_frozen:
  assumes "p_alpha P = 0" and "p_beta P = 0" and "p_gamma P = 0" and "0 < p_m P"
    and "k + p_m P < length (sv_s st)" and "frozen P l s k st"
  shows "frozen P l s (Suc k) (step yobs P k st)"
proof -
  have l: "sv_l st = l" and b: "sv_b st = Num 0"
    and s: "\<And>j. j < k + p_m P \<Longrightarrow> sv_s st ! j = s ! (j mod p_m P)"
    using assms(6) by (simp_all add: frozen_def)
  have sk: "sv_s st ! k = s ! ((k + p_m P) mod p_m P)"
    using s [of k] assms(4) by simp
  consider (gap) "isnan (residual yobs P k st)"
    | (outlier) "\<not> isnan (residual yobs P k st)" "rejected yobs P k st"
    | (assimilate) "\<not> rejected yobs P k st"
    by blast
  then have "sv_l (step yobs P k st) = l \<and> sv_b (step yobs P k st) = Num 0
     \<and> sv_s (step yobs P k st) = (sv_s st)[k + p_m P := sv_s st ! k]"
  proof cases
    case gap
    then show ?thesis using l b by (simp add: step_gap fadd_zero)
  next
    case outlier
    then show ?thesis using l b by (simp add: step_outlier fadd_zero)
  next
    case assimilate
    then obtain e where e: "residual yobs P k st = Num e"
      using not_rejected_is_num [OF assimilate] by (cases "residual yobs P k st") simp_all
    show ?thesis
      using assimilate l b e assms(1,2,3) by (simp add: step_assimilate fadd_zero)
  qed
  moreover have "\<And>j. j < Suc k + p_m P \<Longrightarrow>
      (sv_s st)[k + p_m P := sv_s st ! k] ! j = s ! (j mod p_m P)"
  proof -
    fix j assume j: "j < Suc k + p_m P"
    show "(sv_s st)[k + p_m P := sv_s st ! k] ! j = s ! (j mod p_m P)"
    proof (cases "j = k + p_m P")
      case True
      then show ?thesis using assms(5) sk by simp
    next
      case False
      then have "j < k + p_m P" using j by simp
      then show ?thesis using False s by simp
    qed
  qed
  ultimately show ?thesis by (simp add: frozen_def)
qed

lemma run_frozen:
  assumes "p_alpha P = 0" and "p_beta P = 0" and "p_gamma P = 0" and "0 < p_m P"
    and "length s = p_m P" and "k \<le> n"
  shows "frozen P l s k (run yobs P k (initial_state P n l (Num 0) yhat s sigma))"
  using assms(6)
proof (induction k)
  case 0
  then show ?case
    using assms(5) by (simp add: run_0 frozen_def initial_state_def nth_append)
next
  case (Suc k)
  then have f: "frozen P l s k (run yobs P k (initial_state P n l (Num 0) yhat s sigma))"
    by simp
  have len: "k + p_m P < length (sv_s (run yobs P k (initial_state P n l (Num 0) yhat s sigma)))"
    using Suc.prems assms(5) by (simp add: run_init_lengths)
  show ?case
    unfolding run_Suc by (rule step_frozen [OF assms(1,2,3,4) len f])
qed

lemma frozen_prediction:
  assumes "frozen P l s k st" and "0 < p_m P"
  shows "prediction P k st = fadd l (s ! ((k + p_hstep P) mod p_m P))"
proof -
  have "k + p_hstep P mod p_m P < k + p_m P" using assms(2) by simp
  then have "sv_s st ! (k + p_hstep P mod p_m P) = s ! ((k + p_hstep P mod p_m P) mod p_m P)"
    using assms(1) by (simp add: frozen_def)
  also have "(k + p_hstep P mod p_m P) mod p_m P = (k + p_hstep P) mod p_m P"
    by (simp add: mod_add_right_eq)
  finally show ?thesis
    using assms(1) by (simp add: prediction_def frozen_def fadd_zero)
qed

lemma run_final_yhat:
  assumes "k < n" and "k + p_hstep P < length (sv_yhat st)"
  shows "sv_yhat (run yobs P n st) ! (k + p_hstep P) = prediction P k (run yobs P k st)"
proof -
  obtain d where d: "n = Suc k + d"
    using assms(1) less_iff_Suc_add by auto
  show ?thesis
    unfolding d by (rule run_written_yhat [OF assms(2)])
qed

section \<open>Evaluation on concrete inputs\<close>

lemma replicate_numeral: "replicate (numeral k) x = x # replicate (pred_numeral k) x"
  by (simp add: numeral_eq_Suc)

lemma update_Cons_numeral: "(x # xs)[numeral k := v] = x # xs[pred_numeral k := v]"
  by (simp add: numeral_eq_Suc)

lemma run_numeral:
  "run yobs P (numeral k) st = step yobs P (pred_numeral k) (run yobs P (pred_numeral k) st)"
  by (simp add: numeral_eq_Suc run_Suc)

lemmas list_eval = replicate_numeral update_Cons_numeral upt_rec

lemmas step_eval = run_numeral run_Suc run_0 step_def rejected_def residual_def
  predicted_yhat_def prediction_def predicted_sigma_def new_sigma2_def adapted_sigma_def
  sumc2_H_def phiHminus1_def coeff_def baseline_def baseline_step_def Let_def

lemmas init_eval = the_params_def init_l_def init_b_def init_yhat_def init_s_def init_sigma_def
  default_l_def default_b_def default_s_def default_sigma_def nanmean_def nanvar_def nums_def
  initial_state_def

lemmas final_eval = smooth_def finalize_def cumsum_def

lemmas engine_eval = valid_args_def init_eval list_eval step_eval final_eval

section \<open>The estimator\<close>





section \<open>Series with gaps\<close>


















lemma default_b_num: "is_num (default_b yobs m)"
  by (simp add: default_b_def Let_def not_isnan_is_num)



lemma sqrt_25_16: "sqrt (25 / 16) = 5 / 4"
  by (rule real_sqrt_unique) (simp_all add: power2_eq_square)

section \<open>Resumability\<close>

lemma step_padded:
  assumes "padded z st st'" and "0 < p_m P" and "i < length ys"
    and "i + p_m P < length (sv_s st)" and "i + 1 < length (sv_r st)"
    and "i + p_hstep P + 1 < length (sv_sigma st)" and "i + p_hstep P < length (sv_yhat st)"
  shows "padded z (step ys P i st) (step (ys @ zs) P i st')"
proof -
  have l: "sv_l st' = sv_l st" and b: "sv_b st' = sv_b st"
    and s2: "sv_sigma2 st' = sv_sigma2 st" and c2: "sv_sumc2 st' = sv_sumc2 st"
    and pj: "sv_phiJminus1 st' = sv_phiJminus1 st" and js: "sv_jstep st' = sv_jstep st"
    and s: "sv_s st' = sv_s st @ replicate z (Num 0)"
    and r: "sv_r st' = sv_r st @ replicate z (Num 0)"
    and g: "sv_sigma st' = sv_sigma st @ replicate z (Num 0)"
    and y: "sv_yhat st' = sv_yhat st @ replicate z (Num 0)"
    using assms(1) by (simp_all add: padded_def)
  have i1: "i < length (sv_sigma st)" and i2: "i < length (sv_yhat st)"
    and i3: "i < length (sv_s st)"
    using assms(4,6,7) by simp_all
  have i4: "i + p_hstep P mod p_m P < length (sv_s st)"
    using assms(4) mod_less_divisor [OF assms(2), of "p_hstep P"] by linarith
  have n2: "new_sigma2 P i st' = new_sigma2 P i st"
    using i1 by (simp add: new_sigma2_def js s2 g nth_append)
  have ps: "predicted_sigma P i st' = predicted_sigma P i st @ replicate z (Num 0)"
    using assms(6) by (simp add: predicted_sigma_def n2 c2 g list_update_append1)
  have pr: "prediction P i st' = prediction P i st"
    using i4 by (simp add: prediction_def l b s nth_append)
  have py: "predicted_yhat P i st' = predicted_yhat P i st @ replicate z (Num 0)"
    using assms(7) by (simp add: predicted_yhat_def pr y list_update_append1)
  have "i < length (predicted_yhat P i st)"
    using i2 by (simp add: predicted_yhat_def)
  then have pyi: "predicted_yhat P i st' ! i = predicted_yhat P i st ! i"
    by (simp add: py nth_append)
  have re: "residual (ys @ zs) P i st' = residual ys P i st"
    using assms(3) by (simp add: residual_def pyi nth_append)
  have psi: "predicted_sigma P i st' ! i = predicted_sigma P i st ! i"
    by (simp add: predicted_sigma_here g nth_append i1)
  have rj: "rejected (ys @ zs) P i st' = rejected ys P i st"
    by (simp add: rejected_def re psi)
  have psi2: "(predicted_sigma P i st @ replicate z (Num 0)) ! i = predicted_sigma P i st ! i"
    using psi by (simp add: ps)
  have us: "(sv_s st @ replicate z (Num 0))[i + p_m P := v]
      = (sv_s st)[i + p_m P := v] @ replicate z (Num 0)" for v
    using assms(4) by (simp add: list_update_append1)
  have ur: "(sv_r st @ replicate z (Num 0))[i + 1 := v]
      = (sv_r st)[i + 1 := v] @ replicate z (Num 0)" for v
    using assms(5) by (simp add: list_update_append1)
  have ug: "(predicted_sigma P i st @ replicate z (Num 0))[i + 1 := v]
      = (predicted_sigma P i st)[i + 1 := v] @ replicate z (Num 0)" for v
    using assms(6) by (simp add: list_update_append1 predicted_sigma_def)
  have si: "(sv_s st @ replicate z (Num 0)) ! i = sv_s st ! i"
    using i3 by (simp add: nth_append)
  consider (gap) "isnan (residual ys P i st)"
    | (outlier) "\<not> isnan (residual ys P i st)" "rejected ys P i st"
    | (assimilate) "\<not> rejected ys P i st"
    by blast
  then show ?thesis
  proof cases
    case gap
    then have "isnan (residual (ys @ zs) P i st')" by (simp add: re)
    then show ?thesis
      using gap
      by (simp add: step_gap padded_def l b c2 pj js s r ps py n2 us ur si del: One_nat_def)
  next
    case outlier
    then have "\<not> isnan (residual (ys @ zs) P i st')" and "rejected (ys @ zs) P i st'"
      by (simp_all add: re rj)
    then show ?thesis
      using outlier
      by (simp add: step_outlier padded_def l b c2 pj js s r ps py n2 us ur ug si re psi2
          del: One_nat_def)
  next
    case assimilate
    then have "\<not> rejected (ys @ zs) P i st'" by (simp add: rj)
    then show ?thesis
      using assimilate
      by (simp add: step_assimilate padded_def l b c2 pj js s r ps py n2 us ur ug si re psi2
          del: One_nat_def)
  qed
qed

lemma run_padded:
  assumes "0 < p_m P" and "length s = p_m P" and "length sigma = p_hstep P + 1"
    and "length yhat = p_hstep P" and "k \<le> length ys"
  shows "padded z (run ys P k (initial_state P (length ys) l b yhat s sigma))
                  (run (ys @ zs) P k (initial_state P (length ys + z) l b yhat s sigma))"
  using assms(5)
proof (induction k)
  case 0
  then show ?case
    by (simp add: run_0 padded_def initial_state_def replicate_add)
next
  case (Suc k)
  then have p: "padded z (run ys P k (initial_state P (length ys) l b yhat s sigma))
                  (run (ys @ zs) P k (initial_state P (length ys + z) l b yhat s sigma))"
    by simp
  show ?case
    unfolding run_Suc
    by (rule step_padded [OF p assms(1)])
       (use Suc.prems assms(2,3,4) in \<open>simp_all add: run_init_lengths\<close>)
qed

lemma shift_prediction:
  "fadd (fadd (fadd l (Num c)) x) (fsub s (Num c)) = fadd (fadd l x) s"
  by (cases l; cases x; cases s) simp_all

lemma shift_level: "fadd (fadd l (Num c)) x = fadd (fadd l x) (Num c)"
  by (cases l; cases x) simp_all

lemma shift_level2: "fadd (fadd (fadd l (Num c)) x) y = fadd (fadd (fadd l x) y) (Num c)"
  by (cases l; cases x; cases y) simp_all

lemma shift_seasonal: "fadd (fsub s (Num c)) x = fsub (fadd s x) (Num c)"
  by (cases s; cases x) simp_all

lemma shift_twice: "fsub (fsub x (Num c)) (Num a) = fsub x (Num (c + a))"
  by (cases x) simp_all

lemma resumed_s_update:
  assumes "\<forall>j<k + m. s' ! j = fsub (s ! (t + j)) (Num c)"
    and "k + m < length s'" and "length s' + t = length s" and "v' = fsub v (Num c)"
  shows "\<forall>j<Suc k + m. (s'[k + m := v']) ! j = fsub ((s[t + k + m := v]) ! (t + j)) (Num c)"
proof (intro allI impI)
  fix j assume j: "j < Suc k + m"
  show "(s'[k + m := v']) ! j = fsub ((s[t + k + m := v]) ! (t + j)) (Num c)"
  proof (cases "j = k + m")
    case True
    have "t + k + m < length s" using assms(2,3) by simp
    then show ?thesis using True assms(2,4) by (simp add: add.assoc)
  next
    case False
    then have "j < k + m" using j by simp
    then show ?thesis using False assms(1) by simp
  qed
qed

lemma resumed_r_update:
  assumes "drop 1 r' = drop (Suc t) r"
  shows "drop 1 (r'[k + 1 := v]) = drop (Suc t) (r[t + k + 1 := v])"
proof -
  have "drop 1 (r'[k + 1 := v]) = (drop 1 r')[k := v]"
    using drop_update_swap [of 1 "k + 1" r' v] by simp
  moreover have "drop (Suc t) (r[t + k + 1 := v]) = (drop (Suc t) r)[k := v]"
    using drop_update_swap [of "Suc t" "t + k + 1" r v] by simp
  ultimately show ?thesis using assms by simp
qed

lemma step_resumed:
  assumes "resumed P c t k st st'" and "0 < p_m P" and "t = length ys"
    and "k + p_m P < length (sv_s st')" and "k + p_hstep P + 1 < length (sv_sigma st')"
    and "k + p_hstep P < length (sv_yhat st')"
  shows "resumed P c t (Suc k) (step (ys @ zs) P (t + k) st) (step zs P k st')"
proof -
  have l: "sv_l st' = fadd (sv_l st) (Num c)" and b: "sv_b st' = sv_b st"
    and js: "sv_jstep st' = sv_jstep st" and c2: "sv_sumc2 st' = sv_sumc2 st"
    and pj: "sv_phiJminus1 st' = sv_phiJminus1 st"
    and s2: "sv_jstep st = p_hstep P \<or> sv_sigma2 st' = sv_sigma2 st"
    and y: "sv_yhat st' = drop t (sv_yhat st)"
    and g: "sv_sigma st' = drop t (sv_sigma st)"
    and r: "drop 1 (sv_r st') = drop (Suc t) (sv_r st)"
    and ls: "length (sv_s st') + t = length (sv_s st)"
    and s: "\<forall>j<k + p_m P. sv_s st' ! j = fsub (sv_s st ! (t + j)) (Num c)"
    using assms(1) by (simp_all add: resumed_def)
  have tg: "t \<le> length (sv_sigma st)" and ty: "t \<le> length (sv_yhat st)"
    using assms(5,6) by (simp_all add: g y)
  have gk: "sv_sigma st' ! k = sv_sigma st ! (t + k)"
    using tg by (simp add: g)
  have n2: "new_sigma2 P k st' = new_sigma2 P (t + k) st"
    using s2 by (auto simp add: new_sigma2_def js gk)
  have ps: "predicted_sigma P k st' = drop t (predicted_sigma P (t + k) st)"
    using drop_update_swap [of t "t + k + p_hstep P + 1" "sv_sigma st"]
    by (simp add: predicted_sigma_def n2 c2 g add.assoc)
  have "k + p_hstep P mod p_m P < k + p_m P"
    using mod_less_divisor [OF assms(2), of "p_hstep P"] by simp
  then have "sv_s st' ! (k + p_hstep P mod p_m P)
      = fsub (sv_s st ! (t + k + p_hstep P mod p_m P)) (Num c)"
    using s by (simp add: add.assoc)
  then have pr: "prediction P k st' = prediction P (t + k) st"
    by (simp add: prediction_def l b shift_prediction)
  have py: "predicted_yhat P k st' = drop t (predicted_yhat P (t + k) st)"
    using drop_update_swap [of t "t + k + p_hstep P" "sv_yhat st"]
    by (simp add: predicted_yhat_def pr y add.assoc)
  have "t \<le> length (predicted_yhat P (t + k) st)"
    using ty by (simp add: predicted_yhat_def)
  then have pyk: "predicted_yhat P k st' ! k = predicted_yhat P (t + k) st ! (t + k)"
    by (simp add: py)
  have re: "residual zs P k st' = residual (ys @ zs) P (t + k) st"
    by (simp add: residual_def pyk assms(3))
  have psk: "predicted_sigma P k st' ! k = predicted_sigma P (t + k) st ! (t + k)"
    by (simp add: predicted_sigma_here gk)
  have rj: "rejected zs P k st' = rejected (ys @ zs) P (t + k) st"
    by (simp add: rejected_def re psk)
  have sk: "sv_s st' ! k = fsub (sv_s st ! (t + k)) (Num c)"
    using s assms(2) by simp
  have ug: "(drop t (predicted_sigma P (t + k) st))[k + 1 := v]
      = drop t ((predicted_sigma P (t + k) st)[t + k + 1 := v])" for v
    using drop_update_swap [of t "t + k + 1" "predicted_sigma P (t + k) st" v]
    by (simp add: add.assoc)
  have len: "length ((sv_s st')[k + p_m P := v]) + t = length ((sv_s st)[t + k + p_m P := w])"
    for v w
    using ls by simp
  consider (gap) "isnan (residual zs P k st')"
    | (outlier) "\<not> isnan (residual zs P k st')" "rejected zs P k st'"
    | (assimilate) "\<not> rejected zs P k st'"
    by blast
  then show ?thesis
  proof cases
    case gap
    then have gap': "isnan (residual (ys @ zs) P (t + k) st)" by (simp add: re)
    have su: "\<forall>j<Suc k + p_m P. ((sv_s st')[k + p_m P := sv_s st' ! k]) ! j
        = fsub (((sv_s st)[t + k + p_m P := sv_s st ! (t + k)]) ! (t + j)) (Num c)"
      by (rule resumed_s_update [OF s assms(4) ls sk])
    show ?thesis
      unfolding step_gap [OF gap] step_gap [OF gap'] resumed_def
      using su len resumed_r_update [OF r, of k "Num 0"]
      by (simp add: l b js c2 pj n2 ps py shift_level del: One_nat_def)
  next
    case outlier
    then have o1: "\<not> isnan (residual (ys @ zs) P (t + k) st)"
      and o2: "rejected (ys @ zs) P (t + k) st"
      by (simp_all add: re rj)
    have su: "\<forall>j<Suc k + p_m P. ((sv_s st')[k + p_m P := sv_s st' ! k]) ! j
        = fsub (((sv_s st)[t + k + p_m P := sv_s st ! (t + k)]) ! (t + j)) (Num c)"
      by (rule resumed_s_update [OF s assms(4) ls sk])
    show ?thesis
      unfolding step_outlier [OF outlier] step_outlier [OF o1 o2] resumed_def
      using su len resumed_r_update [OF r, of k "Num 0"] s2
      by (simp add: l b js c2 pj n2 py shift_level re [symmetric] psk [symmetric] ps ug
          del: One_nat_def)
  next
    case assimilate
    then have a1: "\<not> rejected (ys @ zs) P (t + k) st" by (simp add: rj)
    let ?e = "residual zs P k st'"
    let ?g = "fmul (Num (p_gamma P * (1 - p_alpha P))) ?e"
    have "fadd (sv_s st' ! k) ?g = fsub (fadd (sv_s st ! (t + k)) ?g) (Num c)"
      by (simp add: sk shift_seasonal)
    then have su: "\<forall>j<Suc k + p_m P. ((sv_s st')[k + p_m P := fadd (sv_s st' ! k) ?g]) ! j
        = fsub (((sv_s st)[t + k + p_m P := fadd (sv_s st ! (t + k)) ?g]) ! (t + j)) (Num c)"
      by (rule resumed_s_update [OF s assms(4) ls])
    show ?thesis
      unfolding step_assimilate [OF assimilate] step_assimilate [OF a1] resumed_def
      using su len resumed_r_update [OF r, of k "fdiv ?g (Num (real (p_m P)))"]
      by (simp add: l b py shift_level2 re [symmetric] psk [symmetric] ps ug
          del: One_nat_def)
  qed
qed

lemma step_base_inv:
  assumes "base_inv P st"
  shows "base_inv P (step yobs P i st)"
proof -
  consider (gap) "isnan (residual yobs P i st)"
    | (outlier) "\<not> isnan (residual yobs P i st)" "rejected yobs P i st"
    | (assimilate) "\<not> rejected yobs P i st"
    by blast
  then show ?thesis
  proof cases
    case gap
    then show ?thesis using assms by (simp add: step_gap base_inv_def)
  next
    case outlier
    then show ?thesis using assms by (simp add: step_outlier base_inv_def)
  next
    case assimilate
    then show ?thesis by (simp add: step_assimilate base_inv_def)
  qed
qed

lemma run_base_inv: "base_inv P (run yobs P k (initial_state P n l b yhat s sigma))"
proof (induction k)
  case 0
  then show ?case by (simp add: run_0 base_inv_def initial_state_def)
next
  case (Suc k)
  then show ?case by (simp add: run_Suc step_base_inv)
qed

lemma run_r_stable:
  assumes "p \<le> i"
  shows "sv_r (run yobs P (i + d) st) ! p = sv_r (run yobs P i st) ! p"
  using assms by (induction d) (simp_all add: run_Suc step_r_other)

lemma nanmean_mean: "list_all is_num xs \<Longrightarrow> xs \<noteq> [] \<Longrightarrow> nanmean xs = mean xs"
  by (simp add: nanmean_all mean_all)

text \<open>The continuation state of a call, from the final state of its loop.\<close>

lemma continuation_form:
  assumes "0 < p_m P" and "length (sv_s st) = p_m P + n" and "length (sv_r st) = Suc n"
    and "corrector_inv P n st"
  defines "c \<equiv> \<Sum>j = 0..<Suc n. the_num (sv_r st ! j)"
  shows "yhat0next (finalize P n st) = drop n (sv_yhat st)"
    and "sigma0next (finalize P n st) = drop n (sv_sigma st)"
    and "b0next (finalize P n st) = sv_b st"
    and "l0next (finalize P n st) = fadd (sv_l st) (Num c)"
    and "s0next (finalize P n st) = map (\<lambda>x. fsub x (Num c)) (drop n (sv_s st))"
    and "nanmean (s0next (finalize P n st)) = Num 0"
    and "list_all is_num (s0next (finalize P n st))"
proof -
  have nr: "list_all is_num (sv_r st)" using assms(4) by (simp add: corrector_inv_def)
  have "sv_r st \<noteq> []" using assms(3) by auto
  then have c: "last (cumsum (sv_r st)) = Num c"
    using cumsum_last [OF nr] assms(3) by (simp add: c_def)
  show "yhat0next (finalize P n st) = drop n (sv_yhat st)"
    and "sigma0next (finalize P n st) = drop n (sv_sigma st)"
    and "b0next (finalize P n st) = sv_b st"
    by (simp_all add: finalize_def Let_def)
  show "l0next (finalize P n st) = fadd (sv_l st) (Num c)"
    by (simp add: finalize_def Let_def c)
  show "s0next (finalize P n st) = map (\<lambda>x. fsub x (Num c)) (drop n (sv_s st))"
    using s0next_form [OF assms(1,2,3)] c by simp
  then have "s0next (finalize P n st) \<noteq> []" using assms(1,2) by auto
  then show "nanmean (s0next (finalize P n st)) = Num 0"
    using finalize_mean_zero [OF assms(1,2,3,4)] by (simp add: nanmean_mean)
  show "list_all is_num (s0next (finalize P n st))"
    by (rule finalize_mean_zero(1) [OF assms(1,2,3,4)])
qed

lemma initial_resumed:
  assumes "padded z stP stF" and "base_inv P stP" and "sv_jstep stP = p_hstep P"
    and "0 < p_m P" and "length (sv_s stP) = p_m P + t" and "length (sv_r stP) = Suc t"
    and "t \<le> length (sv_yhat stP)" and "t \<le> length (sv_sigma stP)"
  shows "resumed P c t 0 stF
     (initial_state P z (fadd (sv_l stP) (Num c)) (sv_b stP) (drop t (sv_yhat stP))
        (map (\<lambda>x. fsub x (Num c)) (drop t (sv_s stP))) (drop t (sv_sigma stP)))"
proof -
  have "\<forall>j<p_m P. (map (\<lambda>x. fsub x (Num c)) (drop t (sv_s stP)) @ replicate z (Num 0)) ! j
      = fsub ((sv_s stP @ replicate z (Num 0)) ! (t + j)) (Num c)"
    using assms(5) by (simp add: nth_append)
  then show ?thesis
    using assms by (simp add: resumed_def padded_def base_inv_def initial_state_def)
qed

lemma run_resumed:
  assumes "resumed P c t 0 (run (ys @ zs) P t st) (initial_state P z l b yhat s sigma)"
    and "0 < p_m P" and "t = length ys" and "length s = p_m P"
    and "length sigma = p_hstep P + 1" and "length yhat = p_hstep P" and "k \<le> z"
  shows "resumed P c t k (run (ys @ zs) P (t + k) st)
                         (run zs P k (initial_state P z l b yhat s sigma))"
  using assms(7)
proof (induction k)
  case 0
  then show ?case using assms(1) by (simp add: run_0)
next
  case (Suc k)
  then have r: "resumed P c t k (run (ys @ zs) P (t + k) st)
                         (run zs P k (initial_state P z l b yhat s sigma))"
    by simp
  have "resumed P c t (Suc k) (step (ys @ zs) P (t + k) (run (ys @ zs) P (t + k) st))
          (step zs P k (run zs P k (initial_state P z l b yhat s sigma)))"
    by (rule step_resumed [OF r assms(2,3)])
       (use Suc.prems assms(4,5,6) in \<open>simp_all add: run_init_lengths\<close>)
  then show ?case by (simp add: run_Suc)
qed

lemma shat_nth:
  assumes "j < n" and "length (sv_s st) = p_m P + n" and "length (sv_r st) = Suc n"
    and "list_all is_num (sv_r st)"
  shows "shat (finalize P n st) ! j
           = fsub (sv_s st ! j) (Num (\<Sum>i = 0..<Suc j. the_num (sv_r st ! i)))"
proof -
  have "cumsum (sv_r st) ! j = Num (\<Sum>i = 0..<Suc j. the_num (sv_r st ! i))"
    using assms(1,3) by (intro cumsum_nth assms(4)) simp
  then show ?thesis
    using assms(1,2,3) by (simp add: finalize_def Let_def length_cumsum nth_append)
qed

lemma length_shat:
  assumes "length (sv_s st) = p_m P + n" and "length (sv_r st) = Suc n"
  shows "length (shat (finalize P n st)) = n"
  using assms by (simp add: finalize_def Let_def length_cumsum)

lemma resumed_cumsum:
  assumes "drop 1 rS = drop (Suc t) rF" and "rS ! 0 = Num 0" and "length rS + t = length rF"
    and "j < length rS"
  shows "(\<Sum>i = 0..<Suc (t + j). the_num (rF ! i))
           = (\<Sum>i = 0..<Suc t. the_num (rF ! i)) + (\<Sum>i = 0..<Suc j. the_num (rS ! i))"
proof -
  have pt: "rS ! Suc i = rF ! (Suc i + t)" if "Suc i < length rS" for i
  proof -
    have "rS ! Suc i = drop 1 rS ! i" using that by simp
    also have "\<dots> = drop (Suc t) rF ! i" by (simp only: assms(1))
    also have "\<dots> = rF ! (Suc i + t)"
      using that assms(3) by (simp add: add.commute)
    finally show ?thesis .
  qed
  have "(\<Sum>i = 0..<Suc (t + j). the_num (rF ! i))
      = (\<Sum>i = 0..<Suc t. the_num (rF ! i)) + (\<Sum>i = Suc t..<Suc (t + j). the_num (rF ! i))"
    by (rule sum.atLeastLessThan_concat [symmetric]) simp_all
  also have "(\<Sum>i = Suc t..<Suc (t + j). the_num (rF ! i))
      = (\<Sum>i = 1 + t..<Suc j + t. the_num (rF ! i))"
    by (simp add: add.commute)
  also have "\<dots> = (\<Sum>i = 1..<Suc j. the_num (rF ! (i + t)))"
    by (rule sum.shift_bounds_nat_ivl)
  also have "\<dots> = (\<Sum>i = 1..<Suc j. the_num (rS ! i))"
  proof (rule sum.cong)
    fix i assume "i \<in> {1..<Suc j}"
    then obtain i' where i': "i = Suc i'" and "Suc i' < length rS"
      using assms(4) by (cases i) auto
    then show "the_num (rF ! (i + t)) = the_num (rS ! i)" using pt [of i'] by simp
  qed simp
  also have "\<dots> = (\<Sum>i = 0..<Suc j. the_num (rS ! i))"
    using assms(2) by (simp add: sum.atLeast_Suc_lessThan [of 0 "Suc j"] del: sum.op_ivl_Suc)
  finally show ?thesis .
qed

lemma finalize_resumed:
  assumes "resumed P c t z stF stS"
    and "length (sv_s stS) = p_m P + z" and "length (sv_r stS) = Suc z"
    and "length (sv_r stF) = Suc (t + z)"
    and "list_all is_num (sv_r stF)" and "list_all is_num (sv_r stS)"
    and "c = (\<Sum>i = 0..<Suc t. the_num (sv_r stF ! i))" and "sv_r stS ! 0 = Num 0"
  shows "yhat_out (finalize P z stS) = drop t (yhat_out (finalize P (t + z) stF))"
    and "sigmahat (finalize P z stS) = drop t (sigmahat (finalize P (t + z) stF))"
    and "shat (finalize P z stS) = drop t (shat (finalize P (t + z) stF))"
proof -
  have y: "sv_yhat stS = drop t (sv_yhat stF)" and g: "sv_sigma stS = drop t (sv_sigma stF)"
    and r: "drop 1 (sv_r stS) = drop (Suc t) (sv_r stF)"
    and ls: "length (sv_s stS) + t = length (sv_s stF)"
    and s: "\<forall>j<z + p_m P. sv_s stS ! j = fsub (sv_s stF ! (t + j)) (Num c)"
    using assms(1) by (simp_all add: resumed_def)
  show "yhat_out (finalize P z stS) = drop t (yhat_out (finalize P (t + z) stF))"
    by (simp add: finalize_def Let_def y drop_take)
  show "sigmahat (finalize P z stS) = drop t (sigmahat (finalize P (t + z) stF))"
    by (simp add: finalize_def Let_def g drop_take add.commute)
  have lF: "length (sv_s stF) = p_m P + (t + z)" using ls assms(2) by simp
  show "shat (finalize P z stS) = drop t (shat (finalize P (t + z) stF))"
  proof (rule nth_equalityI)
    show "length (shat (finalize P z stS)) = length (drop t (shat (finalize P (t + z) stF)))"
      by (simp add: length_shat [OF assms(2,3)] length_shat [OF lF assms(4)])
  next
    fix j assume "j < length (shat (finalize P z stS))"
    then have j: "j < z" by (simp add: length_shat [OF assms(2,3)])
    have lr: "length (sv_r stS) + t = length (sv_r stF)" using assms(3,4) by simp
    have jr: "j < length (sv_r stS)" using j assms(3) by simp
    have sum: "(\<Sum>i = 0..<Suc (t + j). the_num (sv_r stF ! i))
        = c + (\<Sum>i = 0..<Suc j. the_num (sv_r stS ! i))"
      using resumed_cumsum [OF r assms(8) lr jr] assms(7) by simp
    have "shat (finalize P z stS) ! j
        = fsub (sv_s stS ! j) (Num (\<Sum>i = 0..<Suc j. the_num (sv_r stS ! i)))"
      by (rule shat_nth [OF j assms(2,3,6)])
    also have "sv_s stS ! j = fsub (sv_s stF ! (t + j)) (Num c)"
      using s j by simp
    finally have a: "shat (finalize P z stS) ! j
        = fsub (sv_s stF ! (t + j)) (Num (\<Sum>i = 0..<Suc (t + j). the_num (sv_r stF ! i)))"
      by (simp only: shift_twice sum)
    have "t + j < t + z" using j by simp
    then have "shat (finalize P (t + z) stF) ! (t + j)
        = fsub (sv_s stF ! (t + j)) (Num (\<Sum>i = 0..<Suc (t + j). the_num (sv_r stF ! i)))"
      by (rule shat_nth [OF _ lF assms(4,5)])
    moreover have "t \<le> length (shat (finalize P (t + z) stF))"
      by (simp add: length_shat [OF lF assms(4)])
    ultimately show "shat (finalize P z stS) ! j = drop t (shat (finalize P (t + z) stF)) ! j"
      using a by simp
  qed
qed

lemma smooth_resumable:
  fixes ys zs P fc l b yhat s sigma
  defines "t \<equiv> length ys" and "z \<equiv> length zs + fc"
  defines "stP \<equiv> run ys P (length ys) (initial_state P (length ys) l b yhat s sigma)"
  defines "r1 \<equiv> smooth ys P 0 l b yhat s sigma"
  defines "r2 \<equiv> smooth zs P fc (l0next r1) (b0next r1) (yhat0next r1) (s0next r1)
                   (sigma0next r1)"
  defines "full \<equiv> smooth (ys @ zs) P fc l b yhat s sigma"
  assumes m: "0 < p_m P" and ls: "length s = p_m P" and lg: "length sigma = p_hstep P + 1"
    and ly: "length yhat = p_hstep P" and ns: "list_all is_num s"
    and base: "sv_jstep stP = p_hstep P"
  shows "yhat_out r2 = drop t (yhat_out full)"
    and "shat r2 = drop t (shat full)"
    and "sigmahat r2 = drop t (sigmahat full)"
proof -
  let ?initF = "initial_state P (t + z) l b yhat s sigma"
  let ?stT = "run (ys @ zs) P t ?initF"
  let ?stF = "run (ys @ zs) P (t + z) ?initF"
  define c where "c = (\<Sum>j = 0..<Suc t. the_num (sv_r stP ! j))"
  let ?s' = "map (\<lambda>x. fsub x (Num c)) (drop t (sv_s stP))"
  let ?initS = "initial_state P z (fadd (sv_l stP) (Num c)) (sv_b stP) (drop t (sv_yhat stP))
      ?s' (drop t (sv_sigma stP))"
  let ?stS = "run zs P z ?initS"
  have lens: "length (sv_s stP) = p_m P + t" and lenr: "length (sv_r stP) = Suc t"
    and leny: "length (sv_yhat stP) = p_hstep P + t"
    and leng: "length (sv_sigma stP) = p_hstep P + 1 + t"
    using ls lg ly by (simp_all add: stP_def t_def run_init_lengths)
  have invP: "corrector_inv P t stP"
    unfolding stP_def t_def by (rule run_corrector_inv [OF m ls ns]) simp
  have r1: "r1 = finalize P t stP"
    by (simp add: r1_def smooth_def stP_def t_def Let_def)
  note cont = continuation_form [OF m lens lenr invP, folded c_def r1]
  have r2: "r2 = finalize P z ?stS"
    by (simp add: r2_def smooth_def z_def cont Let_def)
  have full: "full = finalize P (t + z) ?stF"
    by (simp add: full_def smooth_def t_def z_def Let_def add.assoc)
  have pad: "padded z stP ?stT"
    unfolding stP_def t_def by (rule run_padded [OF m ls lg ly]) simp
  have bi: "base_inv P stP"
    unfolding stP_def by (rule run_base_inv)
  have init: "resumed P c t 0 ?stT ?initS"
    by (rule initial_resumed [OF pad bi base m lens lenr]) (simp_all add: leny leng)
  have ls': "length ?s' = p_m P" using lens by simp
  have lg': "length (drop t (sv_sigma stP)) = p_hstep P + 1" using leng by simp
  have ly': "length (drop t (sv_yhat stP)) = p_hstep P" using leny by simp
  have res: "resumed P c t z ?stF ?stS"
    by (rule run_resumed [OF init m _ ls' lg' ly']) (simp_all add: t_def)
  have ns': "list_all is_num ?s'" using cont(7) by (simp add: cont(5))
  have invS: "corrector_inv P z ?stS"
    by (rule run_corrector_inv [OF m ls' ns']) simp
  have invF: "corrector_inv P (t + z) ?stF"
    by (rule run_corrector_inv [OF m ls ns]) simp
  have nrS: "list_all is_num (sv_r ?stS)" and nrF: "list_all is_num (sv_r ?stF)"
    using invS invF by (simp_all add: corrector_inv_def)
  have lsS: "length (sv_s ?stS) = p_m P + z" and lrS: "length (sv_r ?stS) = Suc z"
    and lrF: "length (sv_r ?stF) = Suc (t + z)"
    using ls' by (simp_all add: run_init_lengths)
  have "sv_r ?stF ! i = sv_r stP ! i" if "i < Suc t" for i
  proof -
    have "sv_r ?stF ! i = sv_r ?stT ! i"
      using that by (intro run_r_stable) simp
    also have "\<dots> = sv_r stP ! i"
      using pad that lenr by (simp add: padded_def nth_append)
    finally show ?thesis .
  qed
  then have c: "c = (\<Sum>i = 0..<Suc t. the_num (sv_r ?stF ! i))"
    unfolding c_def by (intro sum.cong) simp_all
  have "sv_r (run zs P (0 + z) ?initS) ! 0 = sv_r (run zs P 0 ?initS) ! 0"
    by (rule run_r_stable) simp
  then have r0: "sv_r ?stS ! 0 = Num 0"
    using cont(6) by (simp add: run_0 initial_state_def cont(5))
  note fin = finalize_resumed [OF res lsS lrS lrF nrF nrS c r0]
  show "yhat_out r2 = drop t (yhat_out full)"
    and "shat r2 = drop t (shat full)"
    and "sigmahat r2 = drop t (sigmahat full)"
    using fin by (simp_all only: r2 full)
qed

section \<open>Claims\<close>

text \<open>
  Claim C1. At every step \<open>i\<close> of the recurrence, with \<open>e\<close> the residual: when \<open>e\<close> is
  undefined or \<open>|e| > zthresh * sigma[i]\<close>, the seasonal entry is carried forward, the level
  advances by the damped trend and the slope is damped; a gap then grows the coefficients of
  the prediction interval and advances the horizon counter, leaving the predicted sigma in
  place, while a rejected outlier updates \<open>sigma[i + 1]\<close> from \<open>|e|\<close>. Otherwise level, slope
  and seasonal entry are corrected by \<open>alpha * e\<close>, \<open>alpha * beta * e\<close> and
  \<open>gamma * (1 - alpha) * e\<close>, \<open>sigma[i + 1]\<close> is updated from \<open>|e|\<close>, and the accumulator
  returns to its baseline for the horizon \<open>hstep\<close>.
\<close>

theorem step_follows_spec:
  fixes yobs P n l b yhat s sigma i
  defines "st \<equiv> run yobs P i (initial_state P n l b yhat s sigma)"
    and "st' \<equiv> run yobs P (Suc i) (initial_state P n l b yhat s sigma)"
  defines "e \<equiv> (if i < length yobs then fsub (yobs ! i) (sv_yhat st' ! i) else NaN)"
  assumes "i < n" and "length s = p_m P" and "length sigma = p_hstep P + 1"
  shows "if isnan e \<or> fgt (fabs e) (fmul (Num (p_zthresh P)) (sv_sigma st ! i))
         then sv_s st' ! (i + p_m P) = sv_s st ! i
            \<and> sv_l st' = fadd (sv_l st) (fmul (Num (p_phi P)) (sv_b st))
            \<and> sv_b st' = fmul (Num (p_phi P)) (sv_b st)
            \<and> (if isnan e
               then sv_phiJminus1 st' = sv_phiJminus1 st + p_phi P ^ sv_jstep st
                  \<and> sv_sumc2 st'
                      = sv_sumc2 st + (coeff P (sv_phiJminus1 st') (sv_jstep st)) ^ 2
                  \<and> sv_jstep st' = sv_jstep st + 1
                  \<and> sv_sigma st' = predicted_sigma P i st
               else sv_sigma st' ! (i + 1)
                      = fadd (fmul (Num (p_alpha P)) (fabs e))
                             (fmul (Num (1 - p_alpha P)) (sv_sigma st ! i))
                  \<and> sv_phiJminus1 st' = sv_phiJminus1 st
                  \<and> sv_sumc2 st' = sv_sumc2 st
                  \<and> sv_jstep st' = sv_jstep st)
         else sv_l st' = fadd (fadd (sv_l st) (fmul (Num (p_phi P)) (sv_b st)))
                              (fmul (Num (p_alpha P)) e)
            \<and> sv_b st' = fadd (fmul (Num (p_phi P)) (sv_b st))
                              (fmul (Num (p_alpha P * p_beta P)) e)
            \<and> sv_s st' ! (i + p_m P)
                = fadd (sv_s st ! i) (fmul (Num (p_gamma P * (1 - p_alpha P))) e)
            \<and> sv_sigma st' ! (i + 1)
                = fadd (fmul (Num (p_alpha P)) (fabs e))
                       (fmul (Num (1 - p_alpha P)) (sv_sigma st ! i))
            \<and> sv_sumc2 st' = sumc2_H P
            \<and> sv_phiJminus1 st' = phiHminus1 P
            \<and> sv_jstep st' = p_hstep P"
proof -
  have st': "st' = step yobs P i st"
    by (simp add: st'_def st_def run_Suc)
  have e: "e = residual yobs P i st"
    by (simp add: e_def st' residual_after)
  have ls: "i + p_m P < length (sv_s st)"
    using assms(4,5) by (simp add: st_def run_init_lengths)
  have lg: "i + 1 < length (sv_sigma st)"
    using assms(4,6) by (simp add: st_def run_init_lengths)
  have lp: "i + 1 < length (predicted_sigma P i st)"
    using lg by (simp add: predicted_sigma_def)
  consider (gap) "isnan e" | (outlier) "\<not> isnan e" "rejected yobs P i st"
    | (assimilate) "\<not> rejected yobs P i st"
    by blast
  then show ?thesis
  proof cases
    case gap
    then show ?thesis
      using ls by (simp add: st' step_gap e [symmetric] del: One_nat_def)
  next
    case outlier
    moreover have "isnan e \<or> fgt (fabs e) (fmul (Num (p_zthresh P)) (sv_sigma st ! i))"
      using outlier(2) by (simp add: rejected_iff e)
    ultimately show ?thesis
      using ls lp
      by (simp add: st' step_outlier e [symmetric] adapted_sigma_def predicted_sigma_here
          del: One_nat_def)
  next
    case assimilate
    moreover have "\<not> (isnan e \<or> fgt (fabs e) (fmul (Num (p_zthresh P)) (sv_sigma st ! i)))"
      using assimilate by (simp add: rejected_iff e)
    ultimately show ?thesis
      using ls lp
      by (simp add: st' step_assimilate e [symmetric] adapted_sigma_def predicted_sigma_here
          del: One_nat_def)
  qed
qed


theorem step_follows_spec_witness:
  "sv_l (run [Num 2] \<lparr>p_m = 1, p_alpha = 1/2, p_beta = 1/2, p_gamma = 1/2, p_phi = 1,
                       p_zthresh = 6, p_hstep = 0\<rparr> (Suc 0)
          (initial_state \<lparr>p_m = 1, p_alpha = 1/2, p_beta = 1/2, p_gamma = 1/2, p_phi = 1,
                          p_zthresh = 6, p_hstep = 0\<rparr> 1 (Num 0) (Num 0) [] [Num 0] [Num 1]))
     = Num 1
 \<and> sv_b (run [Num 2] \<lparr>p_m = 1, p_alpha = 1/2, p_beta = 1/2, p_gamma = 1/2, p_phi = 1,
                       p_zthresh = 6, p_hstep = 0\<rparr> (Suc 0)
          (initial_state \<lparr>p_m = 1, p_alpha = 1/2, p_beta = 1/2, p_gamma = 1/2, p_phi = 1,
                          p_zthresh = 6, p_hstep = 0\<rparr> 1 (Num 0) (Num 0) [] [Num 0] [Num 1]))
     = Num (1/2)
 \<and> sv_sigma (run [Num 2] \<lparr>p_m = 1, p_alpha = 1/2, p_beta = 1/2, p_gamma = 1/2, p_phi = 1,
                       p_zthresh = 6, p_hstep = 0\<rparr> (Suc 0)
          (initial_state \<lparr>p_m = 1, p_alpha = 1/2, p_beta = 1/2, p_gamma = 1/2, p_phi = 1,
                          p_zthresh = 6, p_hstep = 0\<rparr> 1 (Num 0) (Num 0) [] [Num 0] [Num 1])) ! 1
     = Num (3/2)
 \<and> sv_jstep (run [NaN] \<lparr>p_m = 1, p_alpha = 1/2, p_beta = 1/2, p_gamma = 1/2, p_phi = 1,
                       p_zthresh = 6, p_hstep = 0\<rparr> (Suc 0)
          (initial_state \<lparr>p_m = 1, p_alpha = 1/2, p_beta = 1/2, p_gamma = 1/2, p_phi = 1,
                          p_zthresh = 6, p_hstep = 0\<rparr> 1 (Num 0) (Num 0) [] [Num 0] [Num 1]))
     = 1
 \<and> sv_sumc2 (run [NaN] \<lparr>p_m = 1, p_alpha = 1/2, p_beta = 1/2, p_gamma = 1/2, p_phi = 1,
                       p_zthresh = 6, p_hstep = 0\<rparr> (Suc 0)
          (initial_state \<lparr>p_m = 1, p_alpha = 1/2, p_beta = 1/2, p_gamma = 1/2, p_phi = 1,
                          p_zthresh = 6, p_hstep = 0\<rparr> 1 (Num 0) (Num 0) [] [Num 0] [Num 1]))
     = 41/16"
  using step_follows_spec [where i = 0 and n = 1 and s = "[Num 0]" and sigma = "[Num 1]"
      and yobs = "[Num 2]" and l = "Num 0" and b = "Num 0" and yhat = "[]"
      and P = "\<lparr>p_m = 1, p_alpha = 1/2, p_beta = 1/2, p_gamma = 1/2, p_phi = 1,
                       p_zthresh = 6, p_hstep = 0\<rparr>"]
    step_follows_spec [where i = 0 and n = 1 and s = "[Num 0]" and sigma = "[Num 1]"
      and yobs = "[NaN]" and l = "Num 0" and b = "Num 0" and yhat = "[]"
      and P = "\<lparr>p_m = 1, p_alpha = 1/2, p_beta = 1/2, p_gamma = 1/2, p_phi = 1,
                       p_zthresh = 6, p_hstep = 0\<rparr>"]
  by (simp add: run_eval power2_eq_square)

text \<open>
  Claim C2. At every step \<open>i < N + fc\<close> the engine writes to \<open>yhat[i + hstep]\<close> the level,
  plus the slope times \<open>1 + phi + \<dots> + phi^(hstep - 2)\<close>, plus the entry of the seasonal
  state at cyclic position \<open>(i + hstep) mod m\<close>; no later step changes it, so it is the value
  the engine returns at that index.
\<close>

theorem prediction_follows_spec:
  fixes yobs P fc l b yhat s sigma i
  defines "n \<equiv> length yobs + fc"
  defines "st \<equiv> run yobs P i (initial_state P n l b yhat s sigma)"
    and "res \<equiv> smooth yobs P fc l b yhat s sigma"
  defines "p \<equiv> fadd (fadd (sv_l st)
                           (fmul (Num (\<Sum>h = 1..<p_hstep P. p_phi P ^ (h - 1))) (sv_b st)))
                     (seasonal_ring P i st ! ((i + p_hstep P) mod p_m P))"
  assumes "i < n" and "0 < p_m P" and "length yhat = p_hstep P"
  shows "sv_yhat (run yobs P (Suc i) (initial_state P n l b yhat s sigma)) ! (i + p_hstep P) = p
       \<and> (yhat_out res @ yhat0next res) ! (i + p_hstep P) = p
       \<and> seasonal_ring P i st ! ((i + p_hstep P) mod p_m P)
           = sv_s st ! (i + p_hstep P mod p_m P)"
proof -
  let ?init = "initial_state P n l b yhat s sigma"
  have len: "i + p_hstep P < length (sv_yhat ?init)"
    using assms(5,7) by (simp add: initial_lengths)
  have p: "prediction P i st = p"
    using assms(6) by (simp add: p_def prediction_def seasonal_ring_nth phiHminus1_sum)
  have a: "sv_yhat (run yobs P (Suc i) ?init) ! (i + p_hstep P) = p"
    using run_written_yhat [OF len, of yobs 0] p by (simp add: st_def)
  have "Suc i + (n - Suc i) = n" using assms(5) by simp
  then have b: "sv_yhat (run yobs P n ?init) ! (i + p_hstep P) = p"
    using run_written_yhat [OF len, of yobs "n - Suc i"] p by (simp add: st_def)
  have "yhat_out res @ yhat0next res = sv_yhat (run yobs P n ?init)"
    by (simp add: res_def smooth_def finalize_def Let_def n_def)
  then show ?thesis using a b seasonal_ring_nth [OF assms(6), of i st] by simp
qed

theorem prediction_follows_spec_witness:
  "sv_yhat (run [Num 2, Num 4] \<lparr>p_m = 2, p_alpha = 1/2, p_beta = 1/2, p_gamma = 1/2,
                       p_phi = 1/2, p_zthresh = 6, p_hstep = 3\<rparr> (Suc 0)
          (initial_state \<lparr>p_m = 2, p_alpha = 1/2, p_beta = 1/2, p_gamma = 1/2, p_phi = 1/2,
                          p_zthresh = 6, p_hstep = 3\<rparr> 2 (Num 10) (Num 4) [NaN, NaN, NaN]
             [Num 1, Num 2] [Num 1, Num 1, Num 1, Num 1])) ! 3
     = Num 18"
  using prediction_follows_spec [where i = 0 and fc = 0 and s = "[Num 1, Num 2]"
      and sigma = "[Num 1, Num 1, Num 1, Num 1]"
      and yobs = "[Num 2, Num 4]" and l = "Num 10" and b = "Num 4" and yhat = "[NaN, NaN, NaN]"
      and P = "\<lparr>p_m = 2, p_alpha = 1/2, p_beta = 1/2, p_gamma = 1/2, p_phi = 1/2,
                       p_zthresh = 6, p_hstep = 3\<rparr>"]
  by (simp add: run_0 initial_state_def seasonal_ring_def upt_rec eval_nat_numeral mod_Suc)

text \<open>
  Claim C3. The renormalisation of the seasonal mean happens once, after the loop: the
  corrector terms are integrated by a cumulative sum, which is subtracted from the seasonal
  array (its last value from the entries past the end), and the last value is added to the
  returned level. Whatever steps were assimilated or extrapolated, the \<open>m\<close> entries of the
  seasonal continuation state are then numbers of mean zero. A supplied \<open>s0\<close> holds numbers,
  as the default does.
\<close>

theorem seasonal_mean_zero:
  fixes yobs m alpha beta gamma phi yhat0 s0 l0 b0 sigma0 zthresh fc hstep
  defines "st \<equiv> engine_state yobs m alpha beta gamma phi yhat0 s0 l0 b0 sigma0 zthresh fc hstep
                  (length yobs + fc)"
  defines "R \<equiv> cumsum (sv_r st)"
  assumes "additive yobs m alpha beta gamma phi yhat0 s0 l0 b0 sigma0 zthresh fc hstep = Inr res"
    and "s0 = None \<or> list_all is_num (the s0)"
  shows "shat res @ s0next res = map2 fsub (sv_s st) (R @ replicate (m - 1) (last R))
       \<and> l0next res = fadd (sv_l st) (last R)
       \<and> length (s0next res) = m
       \<and> list_all is_num (s0next res)
       \<and> mean (s0next res) = Num 0"
proof -
  let ?P = "the_params m alpha beta gamma phi zthresh hstep"
  let ?n = "length yobs + fc"
  have v: "valid_args yobs m alpha beta gamma phi yhat0 s0 sigma0 hstep"
    using assms(3) by (rule additive_Inr_valid)
  have m: "0 < p_m ?P" and pm: "p_m ?P = m"
    using v by (simp_all add: valid_args_def the_params_def)
  have res: "res = finalize ?P ?n st"
    using additive_smooth [OF assms(3)] by (simp add: st_def)
  have ls: "length (init_s yobs m (init_l yobs m l0) s0) = p_m ?P"
    using init_lengths(2) [OF v] pm by simp
  have nums: "list_all is_num (init_s yobs m (init_l yobs m l0) s0)"
    using assms(4) by (rule init_s_nums)
  have inv: "corrector_inv ?P ?n st"
    unfolding st_def engine_state_def
    by (rule run_corrector_inv [OF m ls nums]) simp
  have lens: "length (sv_s st) = p_m ?P + ?n" and lenr: "length (sv_r st) = Suc ?n"
    using ls by (simp_all add: st_def engine_state_def run_init_lengths)
  have a: "shat res @ s0next res = map2 fsub (sv_s st) (R @ replicate (m - 1) (last R))"
    and b: "l0next res = fadd (sv_l st) (last R)"
    using pm by (simp_all add: res finalize_def Let_def R_def)
  have c: "length (s0next res) = m"
    using additive_Inr_lengths [OF assms(3)] by simp
  show ?thesis
    using a b c finalize_mean_zero [OF m lens lenr inv] by (simp add: res)
qed

theorem seasonal_mean_zero_witness:
  "\<exists>res. additive [Num 10, Num 12, NaN, Num 11, Num 40, Num 13] 2 (Some (1/2)) (Some (1/10))
            (Some (3/10)) (Some 1) None None None None None 6 2 0 = Inr res
       \<and> length (s0next res) = 2 \<and> list_all is_num (s0next res) \<and> mean (s0next res) = Num 0"
proof -
  have "valid_args [Num 10, Num 12, NaN, Num 11, Num 40, Num 13] 2 (Some (1/2)) (Some (1/10))
          (Some (3/10)) (Some 1) None None None 0"
    by (simp add: valid_args_def)
  from additive_valid [OF this]
  obtain res where r: "additive [Num 10, Num 12, NaN, Num 11, Num 40, Num 13] 2 (Some (1/2))
       (Some (1/10)) (Some (3/10)) (Some 1) None None None None None 6 2 0 = Inr res"
    by blast
  from seasonal_mean_zero [OF r] r show ?thesis by simp
qed

text \<open>
  Claim C4, amended. Let the full run and the run over the prefix start from the same
  supplied initial state \<open>yhat0\<close>, \<open>s0\<close>, \<open>l0\<close>, \<open>b0\<close>, \<open>sigma0\<close>, with \<open>s0\<close> holding numbers,
  and let the prefix call end with its horizon counter at \<open>hstep\<close>, that is with no missing
  step since the last assimilated one. Then the run over the suffix from the continuation
  state of the prefix call returns the \<open>yhat\<close>, \<open>seasonal\<close> and \<open>sigma\<close> of the full run over the
  suffix region.
\<close>

theorem resumable:
  assumes "0 < m" and "length yhat0 = hstep" and "length s0 = m"
    and "length sigma0 = hstep + 1" and "list_all is_num s0"
    and "sv_jstep (engine_state pre m (Some alpha) (Some beta) (Some gamma) (Some phi)
           (Some yhat0) (Some s0) (Some l0) (Some b0) (Some sigma0) zthresh 0 hstep
           (length pre)) = hstep"
  shows "\<exists>full r2.
      additive (pre @ suf) m (Some alpha) (Some beta) (Some gamma) (Some phi)
        (Some yhat0) (Some s0) (Some l0) (Some b0) (Some sigma0) zthresh fc hstep = Inr full
    \<and> resume pre suf m (Some alpha) (Some beta) (Some gamma) (Some phi)
        (Some yhat0) (Some s0) (Some l0) (Some b0) (Some sigma0) zthresh fc hstep = Inr r2
    \<and> yhat_out r2 = drop (length pre) (yhat_out full)
    \<and> shat r2 = drop (length pre) (shat full)
    \<and> sigmahat r2 = drop (length pre) (sigmahat full)"
proof -
  let ?P = "the_params m (Some alpha) (Some beta) (Some gamma) (Some phi) zthresh hstep"
  let ?r1 = "smooth pre ?P 0 l0 b0 yhat0 s0 sigma0"
  let ?r2 = "smooth suf ?P fc (l0next ?r1) (b0next ?r1) (yhat0next ?r1) (s0next ?r1)
      (sigma0next ?r1)"
  let ?full = "smooth (pre @ suf) ?P fc l0 b0 yhat0 s0 sigma0"
  have m: "0 < p_m ?P" and ls: "length s0 = p_m ?P" and lg: "length sigma0 = p_hstep ?P + 1"
    and ly: "length yhat0 = p_hstep ?P"
    using assms(1,2,3,4) by (simp_all add: the_params_def)
  have base: "sv_jstep (run pre ?P (length pre) (initial_state ?P (length pre) l0 b0 yhat0 s0
      sigma0)) = p_hstep ?P"
    using assms(6)
    by (simp add: engine_state_def init_l_def init_b_def init_yhat_def init_s_def
        init_sigma_def the_params_def)
  have vF: "valid_args (pre @ suf) m (Some alpha) (Some beta) (Some gamma) (Some phi)
      (Some yhat0) (Some s0) (Some sigma0) hstep"
    and vP: "valid_args pre m (Some alpha) (Some beta) (Some gamma) (Some phi)
      (Some yhat0) (Some s0) (Some sigma0) hstep"
    using assms(1,2,3,4) by (simp_all add: valid_args_def)
  have full: "additive (pre @ suf) m (Some alpha) (Some beta) (Some gamma) (Some phi)
        (Some yhat0) (Some s0) (Some l0) (Some b0) (Some sigma0) zthresh fc hstep = Inr ?full"
    using additive_valid [OF vF, of "Some l0" "Some b0" zthresh fc]
    by (simp add: init_l_def init_b_def init_yhat_def init_s_def init_sigma_def)
  have r1: "additive pre m (Some alpha) (Some beta) (Some gamma) (Some phi)
        (Some yhat0) (Some s0) (Some l0) (Some b0) (Some sigma0) zthresh 0 hstep = Inr ?r1"
    using additive_valid [OF vP, of "Some l0" "Some b0" zthresh 0]
    by (simp add: init_l_def init_b_def init_yhat_def init_s_def init_sigma_def)
  have vS: "valid_args suf m (Some alpha) (Some beta) (Some gamma) (Some phi)
      (Some (yhat0next ?r1)) (Some (s0next ?r1)) (Some (sigma0next ?r1)) hstep"
    using assms(1,2,3,4) smooth_lengths(4,5,6) [OF m ls lg, of pre 0 l0 b0 yhat0]
    by (simp add: valid_args_def)
  have r2: "resume pre suf m (Some alpha) (Some beta) (Some gamma) (Some phi)
        (Some yhat0) (Some s0) (Some l0) (Some b0) (Some sigma0) zthresh fc hstep = Inr ?r2"
    using additive_valid [OF vS, of "Some (l0next ?r1)" "Some (b0next ?r1)" zthresh fc]
    by (simp add: resume_def r1 init_l_def init_b_def init_yhat_def init_s_def init_sigma_def)
  note eq = smooth_resumable [OF m ls lg ly assms(5) base, of suf fc]
  show ?thesis
    using full r2 eq by blast
qed

theorem resumable_witness:
  "yhat_out (projr (resume [Num 1, NaN, Num 2] [NaN, Num 3] 1 (Some (1/2)) (Some 0)
      (Some (1/4)) (Some 1) (Some []) (Some [Num 0]) (Some (Num 1)) (Some (Num 0))
      (Some [Num 2]) 6 1 0))
     = drop 3 (yhat_out (projr (additive [Num 1, NaN, Num 2, NaN, Num 3] 1 (Some (1/2))
         (Some 0) (Some (1/4)) (Some 1) (Some []) (Some [Num 0]) (Some (Num 1))
         (Some (Num 0)) (Some [Num 2]) 6 1 0)))
 \<and> sigmahat (projr (resume [Num 1, NaN, Num 2] [NaN, Num 3] 1 (Some (1/2)) (Some 0)
      (Some (1/4)) (Some 1) (Some []) (Some [Num 0]) (Some (Num 1)) (Some (Num 0))
      (Some [Num 2]) 6 1 0))
     = drop 3 (sigmahat (projr (additive [Num 1, NaN, Num 2, NaN, Num 3] 1 (Some (1/2))
         (Some 0) (Some (1/4)) (Some 1) (Some []) (Some [Num 0]) (Some (Num 1))
         (Some (Num 0)) (Some [Num 2]) 6 1 0)))"
proof -
  have "\<exists>full r2.
      additive ([Num 1, NaN, Num 2] @ [NaN, Num 3]) 1 (Some (1/2)) (Some 0) (Some (1/4)) (Some 1)
        (Some []) (Some [Num 0]) (Some (Num 1)) (Some (Num 0)) (Some [Num 2]) 6 1 0 = Inr full
    \<and> resume [Num 1, NaN, Num 2] [NaN, Num 3] 1 (Some (1/2)) (Some 0) (Some (1/4)) (Some 1)
        (Some []) (Some [Num 0]) (Some (Num 1)) (Some (Num 0)) (Some [Num 2]) 6 1 0 = Inr r2
    \<and> yhat_out r2 = drop (length [Num 1, NaN, Num 2]) (yhat_out full)
    \<and> shat r2 = drop (length [Num 1, NaN, Num 2]) (shat full)
    \<and> sigmahat r2 = drop (length [Num 1, NaN, Num 2]) (sigmahat full)"
    by (rule resumable)
       (simp_all add: engine_state_def engine_eval power2_eq_square sqrt_25_16)
  then obtain full r2 where
    "additive ([Num 1, NaN, Num 2] @ [NaN, Num 3]) 1 (Some (1/2)) (Some 0) (Some (1/4)) (Some 1)
       (Some []) (Some [Num 0]) (Some (Num 1)) (Some (Num 0)) (Some [Num 2]) 6 1 0 = Inr full"
    and "resume [Num 1, NaN, Num 2] [NaN, Num 3] 1 (Some (1/2)) (Some 0) (Some (1/4)) (Some 1)
       (Some []) (Some [Num 0]) (Some (Num 1)) (Some (Num 0)) (Some [Num 2]) 6 1 0 = Inr r2"
    and "yhat_out r2 = drop (length [Num 1, NaN, Num 2]) (yhat_out full)"
    and "shat r2 = drop (length [Num 1, NaN, Num 2]) (shat full)"
    and "sigmahat r2 = drop (length [Num 1, NaN, Num 2]) (sigmahat full)"
    by (elim exE conjE)
  then show ?thesis by (simp add: numeral_3_eq_3)
qed

text \<open>
  Split inside a gap, the second call starts the prediction interval again at its baseline:
  the full run gives sigma 5/4 at the second missing step, the resumed run 1. With the
  default initial state the prefix call computes another initial slope and sigma than the
  full run, and the fitted value at the second step is 2 in the full run, 0 in the resumed
  run.
\<close>

theorem resumable_counterexample:
  "sigmahat (projr (additive [NaN, NaN] 1 (Some (1/2)) (Some 0) (Some (1/4)) (Some 1)
      (Some []) (Some [Num 0]) (Some (Num 0)) (Some (Num 0)) (Some [Num 1]) 6 0 0))
     = [Num 1, Num (5/4)]
 \<and> sigmahat (projr (resume [NaN] [NaN] 1 (Some (1/2)) (Some 0) (Some (1/4)) (Some 1)
      (Some []) (Some [Num 0]) (Some (Num 0)) (Some (Num 0)) (Some [Num 1]) 6 0 0))
     = [Num 1]
 \<and> yhat_out (projr (additive [Num 0, Num 2] 1 (Some (1/2)) (Some 0) (Some 0) (Some 1)
      None None None None None 6 0 0))
     = [Num 0, Num 2]
 \<and> yhat_out (projr (resume [Num 0] [Num 2] 1 (Some (1/2)) (Some 0) (Some 0) (Some 1)
      None None None None None 6 0 0))
     = [Num 0]"
proof -
  have "sigmahat (projr (additive [NaN, NaN] 1 (Some (1/2)) (Some 0) (Some (1/4)) (Some 1)
      (Some []) (Some [Num 0]) (Some (Num 0)) (Some (Num 0)) (Some [Num 1]) 6 0 0))
     = [Num 1, Num (5/4)]"
    by (simp add: additive_valid engine_eval power2_eq_square sqrt_25_16)
  moreover have "sigmahat (projr (resume [NaN] [NaN] 1 (Some (1/2)) (Some 0) (Some (1/4))
      (Some 1) (Some []) (Some [Num 0]) (Some (Num 0)) (Some (Num 0)) (Some [Num 1]) 6 0 0))
     = [Num 1]"
    by (simp add: resume_def additive_valid engine_eval power2_eq_square sqrt_25_16)
  moreover have "yhat_out (projr (additive [Num 0, Num 2] 1 (Some (1/2)) (Some 0) (Some 0)
      (Some 1) None None None None None 6 0 0)) = [Num 0, Num 2]"
    by (simp add: additive_valid engine_eval power2_eq_square)
  moreover have "yhat_out (projr (resume [Num 0] [Num 2] 1 (Some (1/2)) (Some 0) (Some 0)
      (Some 1) None None None None None 6 0 0)) = [Num 0]"
    by (simp add: resume_def additive_valid engine_eval power2_eq_square)
  ultimately show ?thesis by simp
qed




text \<open>
  Claim C6. For valid arguments, on a series of length \<open>N\<close> with \<open>fc\<close> forecast steps, the
  engine returns series \<open>yhat\<close>, \<open>seasonal\<close> and \<open>sigma\<close> of length \<open>N + fc\<close> each. The
  buffers of \<open>yhat\<close> and \<open>sigma\<close> hold \<open>hstep\<close> and \<open>hstep + 1\<close> entries more; the returned
  \<open>yhat\<close> is the buffer's first \<open>N + fc\<close> entries, the returned \<open>sigma\<close> the \<open>N + fc\<close> entries
  after the first, and the rest is the continuation state.
\<close>

theorem additive_lengths:
  fixes yobs m alpha beta gamma phi yhat0 s0 l0 b0 sigma0 zthresh fc hstep
  defines "n \<equiv> length yobs + fc"
  defines "st \<equiv> engine_state yobs m alpha beta gamma phi yhat0 s0 l0 b0 sigma0 zthresh fc hstep
                  (length yobs + fc)"
  assumes "valid_args yobs m alpha beta gamma phi yhat0 s0 sigma0 hstep"
  shows "\<exists>res. additive yobs m alpha beta gamma phi yhat0 s0 l0 b0 sigma0 zthresh fc hstep
                 = Inr res
       \<and> length (yhat_out res) = n \<and> length (shat res) = n \<and> length (sigmahat res) = n
       \<and> length (sv_yhat st) = hstep + n \<and> length (sv_sigma st) = hstep + 1 + n
       \<and> yhat_out res = take n (sv_yhat st) \<and> yhat0next res = drop n (sv_yhat st)
       \<and> sigmahat res = take n (drop 1 (sv_sigma st)) \<and> sigma0next res = drop n (sv_sigma st)
       \<and> length (yhat0next res) = hstep \<and> length (s0next res) = m
       \<and> length (sigma0next res) = hstep + 1"
proof -
  let ?P = "the_params m alpha beta gamma phi zthresh hstep"
  obtain res where r: "additive yobs m alpha beta gamma phi yhat0 s0 l0 b0 sigma0 zthresh fc
      hstep = Inr res"
    using additive_valid [OF assms(3)] by blast
  have f: "res = finalize ?P n st"
    using additive_smooth [OF r] by (simp add: n_def st_def)
  have "length (sv_yhat st) = hstep + n" and "length (sv_sigma st) = hstep + 1 + n"
    using init_lengths [OF assms(3)]
    by (simp_all add: st_def n_def engine_state_def run_init_lengths)
  moreover have "yhat_out res = take n (sv_yhat st)" and "yhat0next res = drop n (sv_yhat st)"
    and "sigmahat res = take n (drop 1 (sv_sigma st))"
    and "sigma0next res = drop n (sv_sigma st)"
    by (simp_all add: f finalize_def Let_def)
  ultimately show ?thesis
    using r additive_Inr_lengths [OF r] by (simp add: n_def)
qed

theorem additive_lengths_witness:
  "length (yhat_out (projr (additive [Num 1, NaN, Num 3] 2 (Some (1/2)) (Some (1/10))
      (Some (3/10)) (Some 1) None None None None None 6 2 1))) = 5
 \<and> length (shat (projr (additive [Num 1, NaN, Num 3] 2 (Some (1/2)) (Some (1/10))
      (Some (3/10)) (Some 1) None None None None None 6 2 1))) = 5
 \<and> length (sigmahat (projr (additive [Num 1, NaN, Num 3] 2 (Some (1/2)) (Some (1/10))
      (Some (3/10)) (Some 1) None None None None None 6 2 1))) = 5
 \<and> length (sigma0next (projr (additive [Num 1, NaN, Num 3] 2 (Some (1/2)) (Some (1/10))
      (Some (3/10)) (Some 1) None None None None None 6 2 1))) = 2"
proof -
  have v: "valid_args [Num 1, NaN, Num 3] 2 (Some (1/2)) (Some (1/10)) (Some (3/10)) (Some 1)
          None None None 1"
    by (simp add: valid_args_def)
  obtain res where "additive [Num 1, NaN, Num 3] 2 (Some (1/2)) (Some (1/10)) (Some (3/10))
      (Some 1) None None None None None 6 2 1 = Inr res"
    and "length (yhat_out res) = length [Num 1, NaN, Num 3] + 2"
    and "length (shat res) = length [Num 1, NaN, Num 3] + 2"
    and "length (sigmahat res) = length [Num 1, NaN, Num 3] + 2"
    and "length (sigma0next res) = 1 + 1"
    using additive_lengths [OF v, of None None 6 2] by blast
  then show ?thesis by simp
qed

text \<open>
  Claim C7, amended. The checks run in the order \<open>alpha\<close>, \<open>beta\<close>, \<open>gamma\<close>, \<open>phi\<close>,
  \<open>yhat0\<close>, \<open>s0\<close>, \<open>sigma0\<close>, and the first that fails raises its configuration error:
  a missing parameter is named, and with the four parameters supplied a vector of the wrong
  length is reported with the expected length, \<open>sigma0\<close> only when \<open>s0\<close> is supplied or the
  series has at least \<open>m\<close> observations. The call then returns no result.
\<close>

theorem additive_errors:
  "(alpha = None \<longrightarrow>
      additive yobs m alpha beta gamma phi yhat0 s0 l0 b0 sigma0 zthresh fc hstep
        = Inl (AlgorithmException ''alpha is required''))
 \<and> (alpha \<noteq> None \<and> beta = None \<longrightarrow>
      additive yobs m alpha beta gamma phi yhat0 s0 l0 b0 sigma0 zthresh fc hstep
        = Inl (AlgorithmException ''beta is required''))
 \<and> (alpha \<noteq> None \<and> beta \<noteq> None \<and> gamma = None \<longrightarrow>
      additive yobs m alpha beta gamma phi yhat0 s0 l0 b0 sigma0 zthresh fc hstep
        = Inl (AlgorithmException ''gamma is required''))
 \<and> (alpha \<noteq> None \<and> beta \<noteq> None \<and> gamma \<noteq> None \<and> phi = None \<longrightarrow>
      additive yobs m alpha beta gamma phi yhat0 s0 l0 b0 sigma0 zthresh fc hstep
        = Inl (AlgorithmException ''phi is required''))
 \<and> (alpha \<noteq> None \<and> beta \<noteq> None \<and> gamma \<noteq> None \<and> phi \<noteq> None
      \<and> yhat0 \<noteq> None \<and> length (the yhat0) \<noteq> hstep \<longrightarrow>
      additive yobs m alpha beta gamma phi yhat0 s0 l0 b0 sigma0 zthresh fc hstep
        = Inl (AlgorithmException (''yhat0 must have length '' @ show_nat hstep)))
 \<and> (alpha \<noteq> None \<and> beta \<noteq> None \<and> gamma \<noteq> None \<and> phi \<noteq> None
      \<and> (yhat0 = None \<or> length (the yhat0) = hstep)
      \<and> s0 \<noteq> None \<and> length (the s0) \<noteq> m \<longrightarrow>
      additive yobs m alpha beta gamma phi yhat0 s0 l0 b0 sigma0 zthresh fc hstep
        = Inl (AlgorithmException (''s0 must have length '' @ show_nat m @ '' '')))
 \<and> (alpha \<noteq> None \<and> beta \<noteq> None \<and> gamma \<noteq> None \<and> phi \<noteq> None
      \<and> (yhat0 = None \<or> length (the yhat0) = hstep)
      \<and> (if s0 = None then m \<le> length yobs else length (the s0) = m)
      \<and> sigma0 \<noteq> None \<and> length (the sigma0) \<noteq> hstep + 1 \<longrightarrow>
      additive yobs m alpha beta gamma phi yhat0 s0 l0 b0 sigma0 zthresh fc hstep
        = Inl (AlgorithmException (''sigma0 must have length '' @ show_nat (hstep + 1))))"
  by (auto simp add: additive_def Let_def default_s_def split: option.splits)

theorem additive_errors_witness:
  "additive [] 1 None None None None None None None None None 6 0 0
     = Inl (AlgorithmException ''alpha is required'')
 \<and> additive [] 1 (Some 0) None None None None None None None None 6 0 0
     = Inl (AlgorithmException ''beta is required'')
 \<and> additive [] 1 (Some 0) (Some 0) None None None None None None None 6 0 0
     = Inl (AlgorithmException ''gamma is required'')
 \<and> additive [] 1 (Some 0) (Some 0) (Some 0) None None None None None None 6 0 0
     = Inl (AlgorithmException ''phi is required'')
 \<and> additive [] 1 (Some 0) (Some 0) (Some 0) (Some 1) (Some []) None None None None 6 0 12
     = Inl (AlgorithmException ''yhat0 must have length 12'')
 \<and> additive [] 24 (Some 0) (Some 0) (Some 0) (Some 1) None (Some [Num 0]) None None None 6 0 0
     = Inl (AlgorithmException ''s0 must have length 24 '')
 \<and> additive [Num 5] 1 (Some 0) (Some 0) (Some 0) (Some 1) None None None None (Some []) 6 0 3
     = Inl (AlgorithmException ''sigma0 must have length 4'')"
  using additive_errors [where yobs="[]" and m=1 and alpha="None" and beta="None" and gamma="None" and phi="None"
      and ?yhat0.0="None" and ?s0.0="None" and ?l0.0=None and ?b0.0=None and ?sigma0.0="None" and zthresh=6 and fc=0 and hstep=0]
    additive_errors [where yobs="[]" and m=1 and alpha="Some 0" and beta="None" and gamma="None" and phi="None"
      and ?yhat0.0="None" and ?s0.0="None" and ?l0.0=None and ?b0.0=None and ?sigma0.0="None" and zthresh=6 and fc=0 and hstep=0]
    additive_errors [where yobs="[]" and m=1 and alpha="Some 0" and beta="Some 0" and gamma="None" and phi="None"
      and ?yhat0.0="None" and ?s0.0="None" and ?l0.0=None and ?b0.0=None and ?sigma0.0="None" and zthresh=6 and fc=0 and hstep=0]
    additive_errors [where yobs="[]" and m=1 and alpha="Some 0" and beta="Some 0" and gamma="Some 0" and phi="None"
      and ?yhat0.0="None" and ?s0.0="None" and ?l0.0=None and ?b0.0=None and ?sigma0.0="None" and zthresh=6 and fc=0 and hstep=0]
    additive_errors [where yobs="[]" and m=1 and alpha="Some 0" and beta="Some 0" and gamma="Some 0" and phi="Some 1"
      and ?yhat0.0="Some []" and ?s0.0="None" and ?l0.0=None and ?b0.0=None and ?sigma0.0="None" and zthresh=6 and fc=0 and hstep=12]
    additive_errors [where yobs="[]" and m=24 and alpha="Some 0" and beta="Some 0" and gamma="Some 0" and phi="Some 1"
      and ?yhat0.0="None" and ?s0.0="Some [Num 0]" and ?l0.0=None and ?b0.0=None and ?sigma0.0="None" and zthresh=6 and fc=0 and hstep=0]
    additive_errors [where yobs="[Num 5]" and m=1 and alpha="Some 0" and beta="Some 0" and gamma="Some 0" and phi="Some 1"
      and ?yhat0.0="None" and ?s0.0="None" and ?l0.0=None and ?b0.0=None and ?sigma0.0="Some []" and zthresh=6 and fc=0 and hstep=3]
  by (simp add: show_nat.simps)

text \<open>
  A \<open>sigma0\<close> of the wrong length is not reported when the default of \<open>s0\<close> reads past
  the end of the series, and a vector of the wrong length is not reported when a parameter
  is missing.
\<close>

theorem additive_errors_counterexample:
  "additive [] 1 (Some 0) (Some 0) (Some 0) (Some 1) None None None None (Some []) 6 0 0
     = Inl IndexError
 \<and> additive [] 1 None (Some 0) (Some 0) (Some 1) (Some [NaN]) None None None None 6 0 0
     = Inl (AlgorithmException ''alpha is required'')"
  by (simp add: additive_def)

text \<open>
  Claim C8, amended. With \<open>alpha = beta = gamma = 0\<close> and the default initial state, if the
  default slope is zero then \<open>yhat[i]\<close> is the initial level plus the initial seasonal entry
  at position \<open>i mod m\<close>, for every \<open>i\<close> from \<open>hstep\<close> on.
\<close>

theorem no_adaptation:
  assumes "additive yobs m (Some 0) (Some 0) (Some 0) (Some phi) None None None None None
             zthresh fc hstep = Inr res"
    and "default_b yobs m = Num 0"
    and "hstep \<le> i" and "i < length yobs + fc"
  shows "yhat_out res ! i
           = fadd (default_l yobs m) (default_s yobs m (default_l yobs m) ! (i mod m))"
proof -
  let ?P = "the_params m (Some 0) (Some 0) (Some 0) (Some phi) zthresh hstep"
  let ?n = "length yobs + fc"
  let ?l = "default_l yobs m"
  let ?s = "default_s yobs m ?l"
  let ?init = "initial_state ?P ?n ?l (Num 0) (replicate hstep NaN) ?s (default_sigma yobs hstep)"
  have v: "valid_args yobs m (Some 0) (Some 0) (Some 0) (Some phi) None None None hstep"
    using assms(1) by (rule additive_Inr_valid)
  have m: "0 < p_m ?P" and pm: "p_m ?P = m" and ph: "p_hstep ?P = hstep"
    using v by (simp_all add: valid_args_def the_params_def)
  have ls: "length ?s = p_m ?P" by (simp add: default_s_def the_params_def)
  have res: "res = finalize ?P ?n (run yobs ?P ?n ?init)"
    using additive_smooth [OF assms(1)] assms(2)
    by (simp add: engine_state_def init_l_def init_b_def init_yhat_def init_s_def
        init_sigma_def)
  define k where "k = i - hstep"
  have k: "k + p_hstep ?P = i" and kn: "k < ?n"
    using assms(3,4) by (simp_all add: k_def ph)
  have f: "frozen ?P ?l ?s k (run yobs ?P k ?init)"
    using kn by (intro run_frozen m ls) (simp_all add: the_params_def)
  have len: "k + p_hstep ?P < length (sv_yhat ?init)"
    using kn by (simp add: initial_lengths ph)
  have "sv_yhat (run yobs ?P ?n ?init) ! (k + p_hstep ?P) = prediction ?P k (run yobs ?P k ?init)"
    by (rule run_final_yhat [OF kn len])
  then have "sv_yhat (run yobs ?P ?n ?init) ! i = fadd ?l (?s ! (i mod m))"
    using frozen_prediction [OF f m] k pm by simp
  then show ?thesis
    using assms(4) by (simp add: res finalize_def Let_def)
qed

theorem no_adaptation_witness:
  "yhat_out (projr (additive [Num 1, Num 3, Num 1, Num 3] 2 (Some 0) (Some 0) (Some 0)
      (Some (1/2)) None None None None None 6 2 1)) ! 5 = Num 3"
proof -
  have v: "valid_args [Num 1, Num 3, Num 1, Num 3] 2 (Some 0) (Some 0) (Some 0) (Some (1/2))
      None None None 1"
    by (simp add: valid_args_def)
  have b: "default_b [Num 1, Num 3, Num 1, Num 3] 2 = Num 0"
    by (simp add: init_eval)
  have r: "additive [Num 1, Num 3, Num 1, Num 3] 2 (Some 0) (Some 0) (Some 0) (Some (1/2))
      None None None None None 6 2 1
     = Inr (projr (additive [Num 1, Num 3, Num 1, Num 3] 2 (Some 0) (Some 0) (Some 0)
      (Some (1/2)) None None None None None 6 2 1))"
    unfolding additive_valid [OF v] by simp
  show ?thesis
    using no_adaptation [OF r b, of 5] by (simp add: init_eval list_eval)
qed

text \<open>
  With the default slope of the series \<open>0, 0, 2, 2\<close>, which is 1, the fitted values drift
  away from the initial level 0 plus the initial seasonal entries, which are 0; and with
  \<open>hstep = 1\<close> the first fitted value is undefined.
\<close>

theorem no_adaptation_counterexample:
  "yhat_out (projr (additive [Num 0, Num 0, Num 2, Num 2] 2 (Some 0) (Some 0) (Some 0) (Some 1)
      None None None None None 6 0 0)) = [Num 0, Num 1, Num 2, Num 3]
 \<and> default_l [Num 0, Num 0, Num 2, Num 2] 2 = Num 0
 \<and> default_s [Num 0, Num 0, Num 2, Num 2] 2 (Num 0) = [Num 0, Num 0]
 \<and> yhat_out (projr (additive [Num 0, Num 0, Num 2, Num 2] 2 (Some 0) (Some 0) (Some 0) (Some 1)
      None None None None None 6 0 1)) = [NaN, Num 0, Num 1, Num 2]"
proof -
  have v0: "valid_args [Num 0, Num 0, Num 2, Num 2] 2 (Some 0) (Some 0) (Some 0) (Some 1)
      None None None 0"
    and v1: "valid_args [Num 0, Num 0, Num 2, Num 2] 2 (Some 0) (Some 0) (Some 0) (Some 1)
      None None None 1"
    by (simp_all add: valid_args_def)
  have "yhat_out (projr (additive [Num 0, Num 0, Num 2, Num 2] 2 (Some 0) (Some 0) (Some 0)
      (Some 1) None None None None None 6 0 0)) = [Num 0, Num 1, Num 2, Num 3]"
    unfolding additive_valid [OF v0] by (simp add: engine_eval)
  moreover have "yhat_out (projr (additive [Num 0, Num 0, Num 2, Num 2] 2 (Some 0) (Some 0)
      (Some 0) (Some 1) None None None None None 6 0 1)) = [NaN, Num 0, Num 1, Num 2]"
    unfolding additive_valid [OF v1] by (simp add: engine_eval)
  moreover have "default_l [Num 0, Num 0, Num 2, Num 2] 2 = Num 0"
    and "default_s [Num 0, Num 0, Num 2, Num 2] 2 (Num 0) = [Num 0, Num 0]"
    by (simp_all add: init_eval list_eval)
  ultimately show ?thesis by simp
qed



text \<open>
  Claim C10. The objective calls the engine with the candidate parameters and the caller's
  \<open>l0\<close>, \<open>b0\<close>, \<open>s0\<close>, \<open>zthresh\<close> and \<open>hstep\<close> only, with \<open>phi = 1\<close>, \<open>fc = 0\<close> and no \<open>yhat0\<close> or
  \<open>sigma0\<close>; two calls of the estimator that differ only in \<open>phi\<close>, \<open>fc\<close>, \<open>yhat0\<close> or \<open>sigma0\<close>
  return the same result.
\<close>

theorem estimate_ignores_unused:
  "func yobs m s0 l0 b0 zthresh hstep [a, b, c]
     = (case additive yobs m (Some a) (Some b) (Some c) (Some 1) None s0 l0 b0 None
               zthresh 0 hstep of
          Inl e \<Rightarrow> Inl e
        | Inr res \<Rightarrow> Inr (rmse yobs (yhat_out res)))
 \<and> estimate_parameters opt yobs m alpha beta gamma phi yhat0 s0 l0 b0 sigma0 zthresh fc hstep
       alpha0 beta0 gamma0
     = estimate_parameters opt yobs m alpha beta gamma phi' yhat0' s0 l0 b0 sigma0' zthresh fc'
         hstep alpha0 beta0 gamma0"
  by (simp add: func_def estimate_parameters_def)

end
